theory Spec2Isabelle
  imports Complex_Main
begin

section \<open>Qt value types used by the region editor\<close>

text \<open>
  The editor (src/QuickEditor/QuickEditor.cpp) computes with Qt's \<open>qreal\<close> geometry
  classes. A \<open>qreal\<close> is modelled as a real number with exact arithmetic; the concrete
  inputs evaluated below use integral coordinates and the ratios 1 and 2 only, where
  the arithmetic of a double is exact as well. \<open>int\<close> is modelled unbounded.
  The classes themselves belong to Qt, not to the repository; each operation the
  editor calls is written out here with the meaning Qt 5 gives it.
\<close>

record QPointF =
  px :: real
  py :: real

record QRectF =
  rx :: real
  ry :: real
  rw :: real
  rh :: real

record QLineF =
  p1 :: QPointF
  p2 :: QPointF

record QRect =
  ix :: int
  iy :: int
  iw :: int
  ih :: int

definition mkPointF :: "real \<Rightarrow> real \<Rightarrow> QPointF" where
  "mkPointF a b = \<lparr>px = a, py = b\<rparr>"

definition mkRectF :: "real \<Rightarrow> real \<Rightarrow> real \<Rightarrow> real \<Rightarrow> QRectF" where
  "mkRectF a b c d = \<lparr>rx = a, ry = b, rw = c, rh = d\<rparr>"

text \<open>\<open>QRectF::left/top/right/bottom\<close>: the right and bottom edges are \<open>x + w\<close>, \<open>y + h\<close>.\<close>

definition left_of :: "QRectF \<Rightarrow> real" where "left_of r = rx r"
definition top_of :: "QRectF \<Rightarrow> real" where "top_of r = ry r"
definition right_of :: "QRectF \<Rightarrow> real" where "right_of r = rx r + rw r"
definition bottom_of :: "QRectF \<Rightarrow> real" where "bottom_of r = ry r + rh r"

definition topLeft :: "QRectF \<Rightarrow> QPointF" where
  "topLeft r = mkPointF (rx r) (ry r)"
definition topRight :: "QRectF \<Rightarrow> QPointF" where
  "topRight r = mkPointF (rx r + rw r) (ry r)"
definition bottomLeft :: "QRectF \<Rightarrow> QPointF" where
  "bottomLeft r = mkPointF (rx r) (ry r + rh r)"
definition bottomRight :: "QRectF \<Rightarrow> QPointF" where
  "bottomRight r = mkPointF (rx r + rw r) (ry r + rh r)"

text \<open>\<open>QRectF::isEmpty\<close>: \<open>w <= 0 || h <= 0\<close>.\<close>

definition isEmpty :: "QRectF \<Rightarrow> bool" where
  "isEmpty r = (rw r \<le> 0 \<or> rh r \<le> 0)"

text \<open>
  \<open>QRectF::contains(const QPointF &)\<close>: the edges are inclusive, a negative extent is
  read from its other end, and a rectangle of zero width or zero height contains nothing.
\<close>

definition contains :: "QRectF \<Rightarrow> QPointF \<Rightarrow> bool" where
  "contains r p =
     (let l = (if rw r < 0 then rx r + rw r else rx r);
          r' = (if rw r < 0 then rx r else rx r + rw r);
          t = (if rh r < 0 then ry r + rh r else ry r);
          b = (if rh r < 0 then ry r else ry r + rh r)
      in if l = r' then False
         else if px p < l \<or> r' < px p then False
         else if t = b then False
         else if py p < t \<or> b < py p then False
         else True)"

text \<open>\<open>QRectF::normalized\<close>: a negative extent is flipped about its edge.\<close>

definition normalized :: "QRectF \<Rightarrow> QRectF" where
  "normalized r =
     (let r1 = (if rw r < 0 then r\<lparr>rx := rx r + rw r, rw := - rw r\<rparr> else r)
      in if rh r1 < 0 then r1\<lparr>ry := ry r1 + rh r1, rh := - rh r1\<rparr> else r1)"

text \<open>The setters move one edge and keep the opposite one; the movers keep the size.\<close>

definition setLeft :: "real \<Rightarrow> QRectF \<Rightarrow> QRectF" where
  "setLeft v r = r\<lparr>rx := v, rw := rw r - (v - rx r)\<rparr>"
definition setTop :: "real \<Rightarrow> QRectF \<Rightarrow> QRectF" where
  "setTop v r = r\<lparr>ry := v, rh := rh r - (v - ry r)\<rparr>"
definition setRight :: "real \<Rightarrow> QRectF \<Rightarrow> QRectF" where
  "setRight v r = r\<lparr>rw := v - rx r\<rparr>"
definition setBottom :: "real \<Rightarrow> QRectF \<Rightarrow> QRectF" where
  "setBottom v r = r\<lparr>rh := v - ry r\<rparr>"
definition setWidth :: "real \<Rightarrow> QRectF \<Rightarrow> QRectF" where
  "setWidth v r = r\<lparr>rw := v\<rparr>"
definition setHeight :: "real \<Rightarrow> QRectF \<Rightarrow> QRectF" where
  "setHeight v r = r\<lparr>rh := v\<rparr>"
definition moveLeft :: "real \<Rightarrow> QRectF \<Rightarrow> QRectF" where
  "moveLeft v r = r\<lparr>rx := v\<rparr>"
definition moveTop :: "real \<Rightarrow> QRectF \<Rightarrow> QRectF" where
  "moveTop v r = r\<lparr>ry := v\<rparr>"
definition moveTo :: "QPointF \<Rightarrow> QRectF \<Rightarrow> QRectF" where
  "moveTo p r = r\<lparr>rx := px p, ry := py p\<rparr>"

text \<open>\<open>static_cast<int>\<close> of a double truncates towards zero.\<close>

definition to_int :: "real \<Rightarrow> int" where
  "to_int d = (if 0 \<le> d then \<lfloor>d\<rfloor> else \<lceil>d\<rceil>)"

text \<open>
  \<open>qRound(double)\<close> of Qt 5:
  \<^verbatim>\<open>d >= 0.0 ? int(d + 0.5) : int(d - double(int(d-1)) + 0.5) + int(d-1)\<close>.
\<close>

definition qRound :: "real \<Rightarrow> int" where
  "qRound d =
     (if 0 \<le> d then to_int (d + 1 / 2)
      else to_int (d - of_int (to_int (d - 1)) + 1 / 2) + to_int (d - 1))"

section \<open>The hit-test classifier\<close>

text \<open>
  \<open>enum MouseState\<close> is declared in QuickEditor.h; its plain values are the ones the
  switch statements of QuickEditor.cpp name. \<open>MouseState::None\<close> is written \<open>MNone\<close>.
\<close>

datatype MouseState =
  MNone | Inside | Outside | TopLeft | Top | TopRight | Right
  | BottomRight | Bottom | BottomLeft | Left

definition mouseAreaSize :: real where
  "mouseAreaSize = 20"

text \<open>The lambda \<open>withinThreshold\<close> of \<open>QuickEditor::mouseLocation\<close>.\<close>

definition withinThreshold :: "real \<Rightarrow> real \<Rightarrow> bool" where
  "withinThreshold offset sz = (offset \<le> sz \<and> 0 \<le> offset)"

text \<open>
  \<open>QuickEditor::mouseLocation\<close>, lines 890-931, as a function of the selection
  rectangle (the member \<open>mSelection\<close>) and the position.
\<close>

definition mouseLocation :: "QRectF \<Rightarrow> QPointF \<Rightarrow> MouseState" where
  "mouseLocation sel pos =
     (if contains sel pos then
        (let verSize = min mouseAreaSize (rh sel / 2);
             horSize = min mouseAreaSize (rw sel / 2);
             withinTopEdge = withinThreshold (py pos - top_of sel) verSize;
             withinRightEdge = withinThreshold (right_of sel - px pos) horSize;
             withinBottomEdge =
               (\<not> withinTopEdge \<and> withinThreshold (bottom_of sel - py pos) verSize);
             withinLeftEdge =
               (\<not> withinRightEdge \<and> withinThreshold (px pos - left_of sel) horSize)
         in if withinTopEdge then
              (if withinRightEdge then TopRight
               else if withinLeftEdge then TopLeft
               else Top)
            else if withinBottomEdge then
              (if withinRightEdge then BottomRight
               else if withinLeftEdge then BottomLeft
               else Bottom)
            else if withinRightEdge then Right
            else if withinLeftEdge then Left
            else Inside)
      else Outside)"

section \<open>The editor's state\<close>

text \<open>
  \<open>enum EditToolState\<close> (QuickEditor.h), the mouse buttons, the keys and the modifiers
  that the event handlers test.
\<close>

datatype EditToolState = NoEdit | DrawLine | DrawArrow | DrawRect | DrawCircle | DrawText

datatype MouseButton = LeftButton | RightButton | MiddleButton

datatype Key =
  Key_Escape | Key_Return | Key_Enter | Key_Up | Key_Right | Key_Down | Key_Left
  | Key_Other

record KeyboardModifiers =
  ShiftModifier :: bool
  AltModifier :: bool

text \<open>\<open>QMouseEvent::pos()\<close> is a \<open>QPoint\<close>, a pair of integers.\<close>

record QPoint =
  qx :: int
  qy :: int

definition toPointF :: "QPoint \<Rightarrow> QPointF" where
  "toPointF p = mkPointF (of_int (qx p)) (of_int (qy p))"

text \<open>
  A \<open>QPixmap\<close> is a value: its size in device pixels (never negative) and its
  pixel data. Copies are independent of the original (Qt detaches a shared pixmap
  before painting on it).
\<close>

record QPixmap =
  pwidth :: nat
  pheight :: nat
  pdata :: "nat list"

text \<open>
  The two signals of the editor. \<open>grabDone pm r\<close> stands for
  \<open>emit grabDone(pm.copy(r))\<close>.
\<close>

datatype Signal = grabDone QPixmap QRect | grabCancelled

text \<open>
  The members of \<open>QuickEditor\<close> that the event handlers read or write, with
  \<^item> \<open>devicePixelRatioF\<close>: what \<open>devicePixelRatioF()\<close> returns;
  \<^item> \<open>geometry\<close>: the widget's geometry, so \<open>width()\<close> and \<open>height()\<close> are its extents;
  \<^item> \<open>history\<close>: the \<open>QStack\<close> of snapshots, its top at the head of the list;
  \<^item> \<open>cropRegion\<close>: the crop region stored in \<open>SpectacleConfig\<close>;
  \<^item> \<open>emitted\<close>: the signals emitted so far, oldest first;
  \<^item> \<open>pendingTimers\<close>: the tool states captured by the \<open>QTimer::singleShot\<close>
    callbacks of \<open>undo\<close> that have not fired yet, oldest first.
\<close>

record QuickEditor =
  mSelection :: QRectF
  mStartPos :: QPointF
  mInitialTopLeft :: QPointF
  mMousePos :: QPointF
  mMouseDragState :: MouseState
  mEditToolState :: EditToolState
  mPixmap :: QPixmap
  history :: "QPixmap list"
  mLine :: QLineF
  mRect :: QRectF
  mLineWidth :: int
  mPenColor :: nat
  mEditBoxText :: string
  mMagnifierAllowed :: bool
  mShowMagnifier :: bool
  mToggleMagnifier :: bool
  mReleaseToCapture :: bool
  mDisableArrowKeys :: bool
  devicePixelRatioF :: real
  geometry :: QRect
  cropRegion :: QRect
  emitted :: "Signal list"
  pendingTimers :: "EditToolState list"

definition width :: "QuickEditor \<Rightarrow> int" where
  "width s = iw (geometry s)"

definition height :: "QuickEditor \<Rightarrow> int" where
  "height s = ih (geometry s)"

text \<open>
  The member \<open>dprI\<close> is set once by the constructor to \<open>1.0 / devicePixelRatioF()\<close>
  (line 97) and never written again.
\<close>

definition dprI :: "QuickEditor \<Rightarrow> real" where
  "dprI s = 1 / devicePixelRatioF s"

definition magnifierLargeStep :: int where
  "magnifierLargeStep = 15"

definition magZoom :: int where "magZoom = 5"
definition magPixels :: int where "magPixels = 16"
definition magOffset :: int where "magOffset = 32"

text \<open>
  \<open>QuickEditor::drawElements\<close> paints with Qt's rasteriser, which is not part of the
  repository. The painting of the committed shape is therefore a parameter of the
  model: a function of the members \<open>drawElements\<close> reads (tool, line, rectangle, stroke
  width, colour, text) from the raster before to the raster after.
\<close>

type_synonym painter =
  "EditToolState \<Rightarrow> QLineF \<Rightarrow> QRectF \<Rightarrow> int \<Rightarrow> nat \<Rightarrow> string \<Rightarrow> QPixmap \<Rightarrow> QPixmap"

section \<open>Completion\<close>

text \<open>
  \<open>QuickEditor::acceptSelection\<close>, lines 135-148, and its local \<open>scaledCropRegion\<close>: the
  selection in device pixels.
\<close>

definition scaledCropRegion :: "QuickEditor \<Rightarrow> QRect" where
  "scaledCropRegion s =
     (let dpr = devicePixelRatioF s
      in \<lparr>ix = qRound (rx (mSelection s) * dpr),
          iy = qRound (ry (mSelection s) * dpr),
          iw = qRound (rw (mSelection s) * dpr),
          ih = qRound (rh (mSelection s) * dpr)\<rparr>)"

definition acceptSelection :: "QuickEditor \<Rightarrow> QuickEditor" where
  "acceptSelection s =
     (if \<not> isEmpty (mSelection s) then
        s\<lparr>cropRegion := scaledCropRegion s,
          emitted := emitted s @ [grabDone (mPixmap s) (scaledCropRegion s)]\<rparr>
      else s)"

section \<open>The bounds utility\<close>

text \<open>
  \<open>boundsLeft\<close>, \<open>boundsRight\<close>, \<open>boundsUp\<close>, \<open>boundsDown\<close>, lines 242-298. Each returns
  the clamped coordinate and, for a mouse drag, shifts \<open>mStartPos\<close>.

  Modelled from the spec: the default value of the parameter \<open>mouse\<close>, which
  \<open>mouseMoveEvent\<close> leaves out in its calls, is declared in QuickEditor.h, a file that
  is not among the sources. Section 4.1 of the specification says that the anchor is
  corrected when the violation was caused by a drag and not by a keyboard nudge, so
  the default is \<open>true\<close>.
\<close>

text \<open>
  The locals \<open>realMaxX\<close> and \<open>realMaxY\<close> of \<open>boundsRight\<close> and \<open>boundsDown\<close>: the
  largest coordinate of the top-left corner, in device pixels.
\<close>

definition realMaxX :: "QuickEditor \<Rightarrow> int" where
  "realMaxX s = qRound ((of_int (width s) - rw (mSelection s)) * devicePixelRatioF s)"

definition realMaxY :: "QuickEditor \<Rightarrow> int" where
  "realMaxY s = qRound ((of_int (height s) - rh (mSelection s)) * devicePixelRatioF s)"

definition boundsLeft :: "int \<Rightarrow> bool \<Rightarrow> QuickEditor \<Rightarrow> int \<times> QuickEditor" where
  "boundsLeft newTopLeftX mouse s =
     (if newTopLeftX < 0 then
        (0, if mouse
            then s\<lparr>mStartPos := (mStartPos s)\<lparr>px := px (mStartPos s) + of_int newTopLeftX * dprI s\<rparr>\<rparr>
            else s)
      else (newTopLeftX, s))"

definition boundsRight :: "int \<Rightarrow> bool \<Rightarrow> QuickEditor \<Rightarrow> int \<times> QuickEditor" where
  "boundsRight newTopLeftX mouse s =
     (let xOffset = newTopLeftX - realMaxX s
      in if 0 < xOffset then
           (realMaxX s, if mouse
              then s\<lparr>mStartPos := (mStartPos s)\<lparr>px := px (mStartPos s) + of_int xOffset * dprI s\<rparr>\<rparr>
              else s)
         else (newTopLeftX, s))"

definition boundsUp :: "int \<Rightarrow> bool \<Rightarrow> QuickEditor \<Rightarrow> int \<times> QuickEditor" where
  "boundsUp newTopLeftY mouse s =
     (if newTopLeftY < 0 then
        (0, if mouse
            then s\<lparr>mStartPos := (mStartPos s)\<lparr>py := py (mStartPos s) + of_int newTopLeftY * dprI s\<rparr>\<rparr>
            else s)
      else (newTopLeftY, s))"

definition boundsDown :: "int \<Rightarrow> bool \<Rightarrow> QuickEditor \<Rightarrow> int \<times> QuickEditor" where
  "boundsDown newTopLeftY mouse s =
     (let yOffset = newTopLeftY - realMaxY s
      in if 0 < yOffset then
           (realMaxY s, if mouse
              then s\<lparr>mStartPos := (mStartPos s)\<lparr>py := py (mStartPos s) + of_int yOffset * dprI s\<rparr>\<rparr>
              else s)
         else (newTopLeftY, s))"

section \<open>Keyboard events\<close>

text \<open>\<open>QuickEditor::keyPressEvent\<close>, lines 150-231.\<close>

text \<open>
  The local \<open>step\<close>, \<open>shiftPressed ? 1 : magnifierLargeStep\<close>: an integer, converted to
  \<open>qreal\<close> where it is used.
\<close>

definition keyStep :: "bool \<Rightarrow> int" where
  "keyStep shiftPressed = (if shiftPressed then 1 else magnifierLargeStep)"

definition keyPressEvent :: "Key \<Rightarrow> KeyboardModifiers \<Rightarrow> QuickEditor \<Rightarrow> QuickEditor" where
  "keyPressEvent key modifiers s0 =
     (let shiftPressed = ShiftModifier modifiers;
          s = (if shiftPressed then s0\<lparr>mToggleMagnifier := True\<rparr> else s0);
          step = of_int (keyStep shiftPressed);
          sel = mSelection s
      in case key of
           Key_Escape \<Rightarrow> s\<lparr>emitted := emitted s @ [grabCancelled]\<rparr>
         | Key_Return \<Rightarrow> acceptSelection s
         | Key_Enter \<Rightarrow> acceptSelection s
         | Key_Up \<Rightarrow>
             (if mDisableArrowKeys s then s
              else
                (let (newPos, s1) =
                       boundsUp (qRound (top_of sel * devicePixelRatioF s - step)) False s
                 in if AltModifier modifiers
                    then s1\<lparr>mSelection :=
                           normalized (setBottom (dprI s1 * of_int newPos + rh sel) sel)\<rparr>
                    else s1\<lparr>mSelection := moveTop (dprI s1 * of_int newPos) sel\<rparr>))
         | Key_Right \<Rightarrow>
             (if mDisableArrowKeys s then s
              else
                (let (newPos, s1) =
                       boundsRight (qRound (left_of sel * devicePixelRatioF s + step)) False s
                 in if AltModifier modifiers
                    then s1\<lparr>mSelection := setRight (dprI s1 * of_int newPos + rw sel) sel\<rparr>
                    else s1\<lparr>mSelection := moveLeft (dprI s1 * of_int newPos) sel\<rparr>))
         | Key_Down \<Rightarrow>
             (if mDisableArrowKeys s then s
              else
                (let (newPos, s1) =
                       boundsDown (qRound (top_of sel * devicePixelRatioF s + step)) False s
                 in if AltModifier modifiers
                    then s1\<lparr>mSelection := setBottom (dprI s1 * of_int newPos + rh sel) sel\<rparr>
                    else s1\<lparr>mSelection := moveTop (dprI s1 * of_int newPos) sel\<rparr>))
         | Key_Left \<Rightarrow>
             (if mDisableArrowKeys s then s
              else
                (let (newPos, s1) =
                       boundsLeft (qRound (left_of sel * devicePixelRatioF s - step)) False s
                 in if AltModifier modifiers
                    then s1\<lparr>mSelection :=
                           normalized (setRight (dprI s1 * of_int newPos + rw sel) sel)\<rparr>
                    else s1\<lparr>mSelection := moveLeft (dprI s1 * of_int newPos) sel\<rparr>))
         | Key_Other \<Rightarrow> s)"

text \<open>\<open>QuickEditor::keyReleaseEvent\<close>, lines 233-240.\<close>

definition keyReleaseEvent :: "KeyboardModifiers \<Rightarrow> QuickEditor \<Rightarrow> QuickEditor" where
  "keyReleaseEvent modifiers s =
     (if mToggleMagnifier s \<and> \<not> ShiftModifier modifiers
      then s\<lparr>mToggleMagnifier := False\<rparr> else s)"

section \<open>Pointer events\<close>

text \<open>\<open>QuickEditor::mousePressEvent\<close>, lines 300-359.\<close>

definition mousePressEvent :: "MouseButton \<Rightarrow> QPoint \<Rightarrow> QuickEditor \<Rightarrow> QuickEditor" where
  "mousePressEvent button epos s =
     (let pos = toPointF epos in
      if mEditToolState s \<noteq> NoEdit then
        (let s1 = (case mEditToolState s of
                     DrawLine \<Rightarrow> s\<lparr>mLine := \<lparr>p1 = pos, p2 = pos\<rparr>\<rparr>
                   | DrawArrow \<Rightarrow> s\<lparr>mLine := \<lparr>p1 = pos, p2 = pos\<rparr>\<rparr>
                   | _ \<Rightarrow> s\<lparr>mRect := setTop (py pos) (setLeft (px pos) (mRect s))\<rparr>)
         in s1\<lparr>mMouseDragState := MNone\<rparr>)
      else if button = LeftButton then
        (let st = mouseLocation (mSelection s) pos;
             s1 = s\<lparr>mMousePos := pos, mMagnifierAllowed := True,
                    mMouseDragState := st, mDisableArrowKeys := True\<rparr>
         in case st of
              Outside \<Rightarrow> s1\<lparr>mStartPos := pos\<rparr>
            | Inside \<Rightarrow> s1\<lparr>mStartPos := pos, mMagnifierAllowed := False,
                           mInitialTopLeft := topLeft (mSelection s1)\<rparr>
            | Top \<Rightarrow> s1\<lparr>mStartPos := bottomRight (mSelection s1)\<rparr>
            | Left \<Rightarrow> s1\<lparr>mStartPos := bottomRight (mSelection s1)\<rparr>
            | TopLeft \<Rightarrow> s1\<lparr>mStartPos := bottomRight (mSelection s1)\<rparr>
            | Bottom \<Rightarrow> s1\<lparr>mStartPos := topLeft (mSelection s1)\<rparr>
            | Right \<Rightarrow> s1\<lparr>mStartPos := topLeft (mSelection s1)\<rparr>
            | BottomRight \<Rightarrow> s1\<lparr>mStartPos := topLeft (mSelection s1)\<rparr>
            | TopRight \<Rightarrow> s1\<lparr>mStartPos := bottomLeft (mSelection s1)\<rparr>
            | BottomLeft \<Rightarrow> s1\<lparr>mStartPos := topRight (mSelection s1)\<rparr>
            | MNone \<Rightarrow> s1)
      else s)"

text \<open>
  \<open>QuickEditor::mouseMoveEvent\<close>, lines 361-480, in its two parts: the pending shape
  (lines 364-389) and the selection (lines 391-477). \<open>leftDown\<close> is
  \<open>event->buttons() & Qt::LeftButton\<close>.
\<close>

definition movePendingShape :: "bool \<Rightarrow> QPointF \<Rightarrow> QuickEditor \<Rightarrow> QuickEditor" where
  "movePendingShape leftDown p s =
     (if leftDown then
        (if mEditToolState s \<noteq> NoEdit then
           (case mEditToolState s of
              DrawLine \<Rightarrow> s\<lparr>mLine := (mLine s)\<lparr>p2 := p\<rparr>\<rparr>
            | DrawArrow \<Rightarrow> s\<lparr>mLine := (mLine s)\<lparr>p2 := p\<rparr>\<rparr>
            | DrawRect \<Rightarrow> s\<lparr>mRect := setBottom (py p) (setRight (px p) (mRect s))\<rparr>
            | DrawCircle \<Rightarrow> s\<lparr>mRect := setBottom (py p) (setRight (px p) (mRect s))\<rparr>
            | _ \<Rightarrow> s)
         else s)
      else if mEditToolState s = DrawText
        then s\<lparr>mRect := setTop (py p) (setLeft (px p) (mRect s))\<rparr>
        else s)"

text \<open>The rectangle of the four corner cases (lines 400-414).\<close>

definition cornerRect :: "real \<Rightarrow> QPointF \<Rightarrow> QPointF \<Rightarrow> QRectF" where
  "cornerRect dpri start pos =
     (let afterX = (px start \<le> px pos);
          afterY = (py start \<le> py pos)
      in mkRectF
           (if afterX then px start else px pos)
           (if afterY then py start else py pos)
           (\<bar>px pos - px start\<bar> + (if afterX then dpri else 0))
           (\<bar>py pos - py start\<bar> + (if afterY then dpri else 0)))"

text \<open>The \<open>Inside\<close> case (lines 449-474): the translated top-left corner, clamped.\<close>

definition dragSelection :: "QPointF \<Rightarrow> QuickEditor \<Rightarrow> QuickEditor" where
  "dragSelection pos s0 =
     (let s = s0\<lparr>mMagnifierAllowed := False\<rparr>;
          dpr = devicePixelRatioF s;
          newTopLeft =
            \<lparr>qx = qRound ((px pos - px (mStartPos s) + px (mInitialTopLeft s)) * dpr),
             qy = qRound ((py pos - py (mStartPos s) + py (mInitialTopLeft s)) * dpr)\<rparr>;
          (x1, s1) = boundsLeft (qx newTopLeft) True s;
          (newTopLeftX, s2) = (if x1 \<noteq> 0 then boundsRight x1 True s1 else (x1, s1));
          (y1, s3) = boundsUp (qy newTopLeft) True s2;
          (newTopLeftY, s4) = (if y1 \<noteq> 0 then boundsDown y1 True s3 else (y1, s3));
          newTopLeftF = mkPointF (of_int newTopLeftX * dprI s4) (of_int newTopLeftY * dprI s4)
      in s4\<lparr>mSelection := moveTo newTopLeftF (mSelection s4)\<rparr>)"

definition mouseMoveEvent :: "bool \<Rightarrow> QPoint \<Rightarrow> QuickEditor \<Rightarrow> QuickEditor" where
  "mouseMoveEvent leftDown epos s0 =
     (let pos = toPointF epos;
          s = (movePendingShape leftDown pos s0)\<lparr>mMousePos := pos, mMagnifierAllowed := True\<rparr>;
          start = mStartPos s;
          sel = mSelection s
      in case mMouseDragState s of
           MNone \<Rightarrow> s\<lparr>mMagnifierAllowed := False\<rparr>
         | TopLeft \<Rightarrow> s\<lparr>mSelection := cornerRect (dprI s) start pos\<rparr>
         | TopRight \<Rightarrow> s\<lparr>mSelection := cornerRect (dprI s) start pos\<rparr>
         | BottomRight \<Rightarrow> s\<lparr>mSelection := cornerRect (dprI s) start pos\<rparr>
         | BottomLeft \<Rightarrow> s\<lparr>mSelection := cornerRect (dprI s) start pos\<rparr>
         | Outside \<Rightarrow>
             s\<lparr>mSelection :=
                 mkRectF (min (px pos) (px start)) (min (py pos) (py start))
                   (\<bar>px pos - px start\<bar> + dprI s) (\<bar>py pos - py start\<bar> + dprI s)\<rparr>
         | Top \<Rightarrow>
             (let afterY = (py start \<le> py pos)
              in s\<lparr>mSelection :=
                   mkRectF (rx sel) (if afterY then py start else py pos) (rw sel)
                     (\<bar>py pos - py start\<bar> + (if afterY then dprI s else 0))\<rparr>)
         | Bottom \<Rightarrow>
             (let afterY = (py start \<le> py pos)
              in s\<lparr>mSelection :=
                   mkRectF (rx sel) (if afterY then py start else py pos) (rw sel)
                     (\<bar>py pos - py start\<bar> + (if afterY then dprI s else 0))\<rparr>)
         | Right \<Rightarrow>
             (let afterX = (px start \<le> px pos)
              in s\<lparr>mSelection :=
                   mkRectF (if afterX then px start else px pos) (ry sel)
                     (\<bar>px pos - px start\<bar> + (if afterX then dprI s else 0)) (rh sel)\<rparr>)
         | Left \<Rightarrow>
             (let afterX = (px start \<le> px pos)
              in s\<lparr>mSelection :=
                   mkRectF (if afterX then px start else px pos) (ry sel)
                     (\<bar>px pos - px start\<bar> + (if afterX then dprI s else 0)) (rh sel)\<rparr>)
         | Inside \<Rightarrow> dragSelection pos s)"

text \<open>
  The loop of the right-button branch, lines 514-516:
  \<^verbatim>\<open>while(!history->isEmpty()) mPixmap = history->pop();\<close>
  It returns the raster and the stack it ends with.
\<close>

fun popAll :: "QPixmap \<Rightarrow> QPixmap list \<Rightarrow> QPixmap \<times> QPixmap list" where
  "popAll pm [] = (pm, [])"
| "popAll pm (t # rest) = popAll t rest"

text \<open>\<open>QuickEditor::mouseReleaseEvent\<close>, lines 482-522.\<close>

definition mouseReleaseEvent ::
    "painter \<Rightarrow> MouseButton \<Rightarrow> QPoint \<Rightarrow> QuickEditor \<Rightarrow> QuickEditor" where
  "mouseReleaseEvent drawElements button epos s =
     (let pos = toPointF epos;
          s' =
            (if button = LeftButton then
               (if mEditToolState s \<noteq> NoEdit then
                  (let s1 = (case mEditToolState s of
                               DrawLine \<Rightarrow> s\<lparr>mLine := (mLine s)\<lparr>p2 := pos\<rparr>\<rparr>
                             | DrawRect \<Rightarrow>
                                 s\<lparr>mRect := setBottom (py pos) (setRight (px pos) (mRect s))\<rparr>
                             | _ \<Rightarrow> s);
                       s2 = s1\<lparr>history := mPixmap s1 # history s1\<rparr>
                   in s2\<lparr>mPixmap :=
                          drawElements (mEditToolState s2) (mLine s2) (mRect s2)
                            (mLineWidth s2) (mPenColor s2) (mEditBoxText s2) (mPixmap s2)\<rparr>)
                else
                  (let s1 = s\<lparr>mDisableArrowKeys := False\<rparr>
                   in if mMouseDragState s1 = Inside then s1
                      else if mMouseDragState s1 = Outside \<and> mReleaseToCapture s1
                        then acceptSelection s1
                        else s1))
             else if button = RightButton then
               (let s1 = s\<lparr>mSelection := setHeight 0 (setWidth 0 (mSelection s))\<rparr>;
                    (pm, h) = popAll (mPixmap s1) (history s1)
                in s1\<lparr>mPixmap := pm, history := h, mEditToolState := NoEdit\<rparr>)
             else s)
      in s'\<lparr>mMouseDragState := MNone\<rparr>)"

text \<open>\<open>QuickEditor::mouseDoubleClickEvent\<close>, lines 524-530.\<close>

definition mouseDoubleClickEvent :: "MouseButton \<Rightarrow> QPoint \<Rightarrow> QuickEditor \<Rightarrow> QuickEditor" where
  "mouseDoubleClickEvent button epos s =
     (if button = LeftButton \<and> contains (mSelection s) (toPointF epos)
      then acceptSelection s else s)"

section \<open>Undo\<close>

text \<open>
  \<open>QuickEditor::undo\<close>, lines 1180-1190. The callback given to
  \<open>QTimer::singleShot(200, ...)\<close> is queued in \<open>pendingTimers\<close>; \<open>timerFired\<close> is the
  event loop running the oldest queued callback, which may happen between any two
  later events. The length of the delay is not part of the model.
\<close>

definition undo :: "QuickEditor \<Rightarrow> QuickEditor" where
  "undo s =
     (let state = mEditToolState s;
          s1 = s\<lparr>mEditToolState := NoEdit\<rparr>;
          s2 = (case history s1 of
                  [] \<Rightarrow> s1
                | t # rest \<Rightarrow> s1\<lparr>mPixmap := t, history := rest\<rparr>)
      in s2\<lparr>pendingTimers := pendingTimers s2 @ [state]\<rparr>)"

definition timerFired :: "QuickEditor \<Rightarrow> QuickEditor" where
  "timerFired s =
     (case pendingTimers s of
        [] \<Rightarrow> s
      | state # rest \<Rightarrow> s\<lparr>mEditToolState := state, pendingTimers := rest\<rparr>)"

section \<open>The magnifier\<close>

text \<open>
  \<open>QuickEditor::drawMagnifier\<close>, lines 751-802: the geometry it computes before it
  paints. \<open>pixels * magZoom / 2\<close> is a division of integers.
\<close>

record Magnifier =
  magniRect :: QRectF
  offsetX :: int
  offsetY :: int
  drawPos :: QPointF
  crossHairTop :: QRectF
  crossHairRight :: QRectF
  crossHairBottom :: QRectF
  crossHairLeft :: QRectF
  crossHairBorder :: QRectF

text \<open>The clamp of one axis (lines 754-765 and 766-777): the start and the offset.\<close>

definition magClamp :: "int \<Rightarrow> int \<Rightarrow> int \<times> int" where
  "magClamp mag0 extent =
     (if mag0 < 0 then (0, mag0)
      else (let maxv = extent - (2 * magPixels + 1)
            in if maxv < mag0 then (maxv, mag0 - maxv) else (mag0, 0)))"

definition drawMagnifier :: "QuickEditor \<Rightarrow> Magnifier" where
  "drawMagnifier s =
     (let pixels = 2 * magPixels + 1;
          mx = px (mMousePos s);
          my = py (mMousePos s);
          (magX, offX) =
            magClamp (to_int (mx * devicePixelRatioF s - of_int magPixels)) (int (pwidth (mPixmap s)));
          (magY, offY) =
            magClamp (to_int (my * devicePixelRatioF s - of_int magPixels)) (int (pheight (mPixmap s)));
          half = pixels * magZoom div 2;
          drawPosX0 = mx + of_int magOffset + of_int half;
          drawPosX = (if of_int (width s - half) < drawPosX0
                      then mx - of_int magOffset - of_int half else drawPosX0);
          drawPosY0 = my + of_int magOffset + of_int half;
          drawPosY = (if of_int (height s - half) < drawPosY0
                      then my - of_int magOffset - of_int half else drawPosY0);
          z = of_int magZoom;
          n = of_int magPixels;
          ox = of_int offX;
          oy = of_int offY
      in \<lparr>magniRect = mkRectF (of_int magX) (of_int magY) (of_int pixels) (of_int pixels),
          offsetX = offX,
          offsetY = offY,
          drawPos = mkPointF drawPosX drawPosY,
          crossHairTop =
            mkRectF (drawPosX + z * (ox - 1 / 2)) (drawPosY - z * (n + 1 / 2)) z (z * (n + oy)),
          crossHairRight =
            mkRectF (drawPosX + z * (1 / 2 + ox)) (drawPosY + z * (oy - 1 / 2)) (z * (n - ox)) z,
          crossHairBottom =
            mkRectF (drawPosX + z * (ox - 1 / 2)) (drawPosY + z * (1 / 2 + oy)) z (z * (n - oy)),
          crossHairLeft =
            mkRectF (drawPosX - z * (n + 1 / 2)) (drawPosY + z * (oy - 1 / 2)) (z * (n + ox)) z,
          crossHairBorder =
            mkRectF (drawPosX - z * (n + 1 / 2) - 1) (drawPosY - z * (n + 1 / 2) - 1)
              (of_int (pixels * magZoom + 2)) (of_int (pixels * magZoom + 2))\<rparr>)"

text \<open>
  \<open>QuickEditor::paintEvent\<close> calls \<open>drawMagnifier\<close> while a button is down, the magnifier
  is allowed, and exactly one of \<open>mShowMagnifier\<close> and \<open>mToggleMagnifier\<close> is set
  (lines 540-566).
\<close>

definition magnifierShown :: "QuickEditor \<Rightarrow> bool" where
  "magnifierShown s =
     ((\<not> isEmpty (mSelection s) \<or> mMouseDragState s \<noteq> MNone)
      \<and> mMouseDragState s \<noteq> MNone
      \<and> mMagnifierAllowed s \<and> (mShowMagnifier s \<noteq> mToggleMagnifier s))"

section \<open>Construction and the event loop\<close>

text \<open>
  \<open>QRectF::intersected\<close> of Qt 5 (\<open>operator&\<close>): the null rectangle when either
  operand has a zero extent or the operands do not overlap.
\<close>

definition nullRectF :: QRectF where
  "nullRectF = mkRectF 0 0 0 0"

definition intersected :: "QRectF \<Rightarrow> QRectF \<Rightarrow> QRectF" where
  "intersected a b =
     (let l1 = (if rw a < 0 then rx a + rw a else rx a);
          r1 = (if rw a < 0 then rx a else rx a + rw a);
          l2 = (if rw b < 0 then rx b + rw b else rx b);
          r2 = (if rw b < 0 then rx b else rx b + rw b);
          t1 = (if rh a < 0 then ry a + rh a else ry a);
          b1 = (if rh a < 0 then ry a else ry a + rh a);
          t2 = (if rh b < 0 then ry b + rh b else ry b);
          b2 = (if rh b < 0 then ry b else ry b + rh b)
      in if l1 = r1 \<or> l2 = r2 then nullRectF
         else if r2 \<le> l1 \<or> r1 \<le> l2 then nullRectF
         else if t1 = b1 \<or> t2 = b2 then nullRectF
         else if b2 \<le> t1 \<or> b1 \<le> t2 then nullRectF
         else mkRectF (max l1 l2) (max t1 t2) (min r1 r2 - max l1 l2) (min b1 b2 - max t1 t2))"

text \<open>
  The settings the constructor reads from \<open>SpectacleConfig\<close>, and the constructor
  (lines 52-133): the members it initialises, the geometry of line 98 and the
  remembered region of lines 100-109. Members it does not mention are
  default-constructed.
\<close>

record Config =
  rememberLastRectangularRegion :: bool
  configCropRegion :: QRect
  showMagnifierChecked :: bool
  useReleaseToCapture :: bool

definition newQuickEditor :: "QPixmap \<Rightarrow> real \<Rightarrow> Config \<Rightarrow> QuickEditor" where
  "newQuickEditor pixmap dpr config =
     (let dpri = 1 / dpr;
          geo = \<lparr>ix = 0, iy = 0,
                 iw = to_int (of_nat (pwidth pixmap) * dpri),
                 ih = to_int (of_nat (pheight pixmap) * dpri)\<rparr>;
          crop = configCropRegion config;
          sel = (if rememberLastRectangularRegion config \<and> \<not> (iw crop \<le> 0 \<or> ih crop \<le> 0)
                 then intersected
                        (mkRectF (of_int (ix crop) * dpri) (of_int (iy crop) * dpri)
                           (of_int (iw crop) * dpri) (of_int (ih crop) * dpri))
                        (mkRectF (of_int (ix geo)) (of_int (iy geo))
                           (of_int (iw geo)) (of_int (ih geo)))
                 else nullRectF)
      in \<lparr>mSelection = sel,
          mStartPos = mkPointF 0 0,
          mInitialTopLeft = mkPointF 0 0,
          mMousePos = mkPointF 0 0,
          mMouseDragState = MNone,
          mEditToolState = NoEdit,
          mPixmap = pixmap,
          history = [],
          mLine = \<lparr>p1 = mkPointF 0 0, p2 = mkPointF 0 0\<rparr>,
          mRect = nullRectF,
          mLineWidth = 2,
          mPenColor = 16711935,
          mEditBoxText = [],
          mMagnifierAllowed = False,
          mShowMagnifier = showMagnifierChecked config,
          mToggleMagnifier = False,
          mReleaseToCapture = useReleaseToCapture config,
          mDisableArrowKeys = False,
          devicePixelRatioF = dpr,
          geometry = geo,
          cropRegion = crop,
          emitted = [],
          pendingTimers = []\<rparr>)"

text \<open>
  The pointer and keyboard events the widget receives, and their dispatch to the
  handlers above.
\<close>

datatype Event =
  MousePress MouseButton QPoint
  | MouseMove bool QPoint
  | MouseRelease MouseButton QPoint
  | MouseDoubleClick MouseButton QPoint
  | KeyPress Key KeyboardModifiers
  | KeyRelease KeyboardModifiers

fun event :: "painter \<Rightarrow> Event \<Rightarrow> QuickEditor \<Rightarrow> QuickEditor" where
  "event pt (MousePress b p) s = mousePressEvent b p s"
| "event pt (MouseMove l p) s = mouseMoveEvent l p s"
| "event pt (MouseRelease b p) s = mouseReleaseEvent pt b p s"
| "event pt (MouseDoubleClick b p) s = mouseDoubleClickEvent b p s"
| "event pt (KeyPress k m) s = keyPressEvent k m s"
| "event pt (KeyRelease m) s = keyReleaseEvent m s"

text \<open>A sequence of events, handled in order.\<close>

fun events :: "painter \<Rightarrow> Event list \<Rightarrow> QuickEditor \<Rightarrow> QuickEditor" where
  "events pt [] s = s"
| "events pt (e # es) s = events pt es (event pt e s)"

section \<open>Concrete editors\<close>

text \<open>
  The canvas of the specification's scenarios: 1000 x 800 device pixels, shown at a
  device-pixel ratio of 1 or 2, without and with a remembered region of
  \<open>rect(100,100,300,200)\<close>; and a raster of 2 x 2 pixels with a painter that fills it
  with the pen colour.
\<close>

definition canvas :: QPixmap where
  "canvas = \<lparr>pwidth = 1000, pheight = 800, pdata = replicate 800000 0\<rparr>"

definition smallRaster :: QPixmap where
  "smallRaster = \<lparr>pwidth = 2, pheight = 2, pdata = [0, 0, 0, 0]\<rparr>"

definition fillPainter :: painter where
  "fillPainter tool line rect lineWidth color txt pm = pm\<lparr>pdata := map (\<lambda>_. color) (pdata pm)\<rparr>"

definition plainConfig :: Config where
  "plainConfig =
     \<lparr>rememberLastRectangularRegion = False,
      configCropRegion = \<lparr>ix = 0, iy = 0, iw = 0, ih = 0\<rparr>,
      showMagnifierChecked = True,
      useReleaseToCapture = False\<rparr>"

definition rememberConfig :: "int \<Rightarrow> int \<Rightarrow> int \<Rightarrow> int \<Rightarrow> Config" where
  "rememberConfig x y w h =
     \<lparr>rememberLastRectangularRegion = True,
      configCropRegion = \<lparr>ix = x, iy = y, iw = w, ih = h\<rparr>,
      showMagnifierChecked = False,
      useReleaseToCapture = False\<rparr>"

definition pt :: "int \<Rightarrow> int \<Rightarrow> QPoint" where
  "pt x y = \<lparr>qx = x, qy = y\<rparr>"

definition noModifier :: KeyboardModifiers where
  "noModifier = \<lparr>ShiftModifier = False, AltModifier = False\<rparr>"

definition armedEditor :: QuickEditor where
  "armedEditor = (newQuickEditor smallRaster 1 plainConfig)\<lparr>mEditToolState := DrawLine\<rparr>"

section \<open>Vocabulary of the properties\<close>

text \<open>
  The corner handles, and the handle on the other side of the selection: it is the
  one whose anchor \<open>mousePressEvent\<close> takes from the corner (or edge) the first handle
  sits on.
\<close>

fun isCorner :: "MouseState \<Rightarrow> bool" where
  "isCorner TopLeft = True"
| "isCorner TopRight = True"
| "isCorner BottomRight = True"
| "isCorner BottomLeft = True"
| "isCorner st = False"

fun opposite :: "MouseState \<Rightarrow> MouseState" where
  "opposite TopLeft = BottomRight"
| "opposite BottomRight = TopLeft"
| "opposite TopRight = BottomLeft"
| "opposite BottomLeft = TopRight"
| "opposite Top = Bottom"
| "opposite Bottom = Top"
| "opposite Left = Right"
| "opposite Right = Left"
| "opposite st = st"

text \<open>
  The selection's top-left corner in device pixels, as \<open>acceptSelection\<close> and the
  arrow keys compute it.
\<close>

definition deviceLeft :: "QuickEditor \<Rightarrow> int" where
  "deviceLeft s = qRound (rx (mSelection s) * devicePixelRatioF s)"

definition deviceTop :: "QuickEditor \<Rightarrow> int" where
  "deviceTop s = qRound (ry (mSelection s) * devicePixelRatioF s)"

text \<open>
  A pointer position inside the widget, \<open>rect().contains(pos)\<close>, and an event whose
  position, if it has one, is inside the widget.
\<close>

definition posInWidget :: "QuickEditor \<Rightarrow> QPoint \<Rightarrow> bool" where
  "posInWidget s p = (0 \<le> qx p \<and> qx p < width s \<and> 0 \<le> qy p \<and> qy p < height s)"

fun pointerInWidget :: "QuickEditor \<Rightarrow> Event \<Rightarrow> bool" where
  "pointerInWidget s (MousePress b p) = posInWidget s p"
| "pointerInWidget s (MouseMove l p) = posInWidget s p"
| "pointerInWidget s (MouseRelease b p) = posInWidget s p"
| "pointerInWidget s (MouseDoubleClick b p) = posInWidget s p"
| "pointerInWidget s (KeyPress k m) = True"
| "pointerInWidget s (KeyRelease m) = True"

text \<open>
  The selection's projection to device space lies in the canvas \<open>pm\<close>: as the exact
  products with the device-pixel ratio, and as the rounded rectangle
  \<open>scaledCropRegion\<close> that \<open>acceptSelection\<close> crops with.
\<close>

definition selectionInCanvas :: "QPixmap \<Rightarrow> QuickEditor \<Rightarrow> bool" where
  "selectionInCanvas pm s =
     (let dpr = devicePixelRatioF s; sel = mSelection s
      in 0 \<le> rx sel * dpr \<and> 0 \<le> ry sel * dpr \<and> 0 \<le> rw sel * dpr \<and> 0 \<le> rh sel * dpr
       \<and> (rx sel + rw sel) * dpr \<le> of_nat (pwidth pm)
       \<and> (ry sel + rh sel) * dpr \<le> of_nat (pheight pm))"

definition cropInCanvas :: "QPixmap \<Rightarrow> QRect \<Rightarrow> bool" where
  "cropInCanvas pm r =
     (0 \<le> ix r \<and> 0 \<le> iy r \<and> 0 \<le> iw r \<and> 0 \<le> ih r
      \<and> ix r + iw r \<le> int (pwidth pm) \<and> iy r + ih r \<le> int (pheight pm))"

text \<open>
  The invariant behind containment, at an integral device-pixel ratio \<open>n\<close>. On each
  axis the selection lies in the widget and its device coordinates are whole numbers
  (\<open>axisOK\<close>); while a handle is dragged the anchor \<open>mStartPos\<close> lies in the widget
  (\<open>anchorOK\<close>), and while a new selection is drawn it is a pixel of the widget
  (\<open>pressOK\<close>).
\<close>

definition axisOK :: "nat \<Rightarrow> int \<Rightarrow> real \<Rightarrow> real \<Rightarrow> bool" where
  "axisOK n W x w =
     (0 \<le> x \<and> 0 \<le> w \<and> x + w \<le> of_int W \<and> x * of_nat n \<in> \<int> \<and> w * of_nat n \<in> \<int>)"

definition anchorOK :: "nat \<Rightarrow> int \<Rightarrow> real \<Rightarrow> bool" where
  "anchorOK n W a = (0 \<le> a \<and> a \<le> of_int W \<and> a * of_nat n \<in> \<int>)"

definition pressOK :: "nat \<Rightarrow> int \<Rightarrow> real \<Rightarrow> bool" where
  "pressOK n W a = (0 \<le> a \<and> a + 1 / of_nat n \<le> of_int W \<and> a * of_nat n \<in> \<int>)"

fun anchorsOK :: "MouseState \<Rightarrow> nat \<Rightarrow> int \<Rightarrow> int \<Rightarrow> QPointF \<Rightarrow> bool" where
  "anchorsOK MNone n W H a = True"
| "anchorsOK Inside n W H a = True"
| "anchorsOK Outside n W H a = (pressOK n W (px a) \<and> pressOK n H (py a))"
| "anchorsOK st n W H a = (anchorOK n W (px a) \<and> anchorOK n H (py a))"

definition editorInv :: "nat \<Rightarrow> QuickEditor \<Rightarrow> bool" where
  "editorInv n s =
     (0 < n \<and> devicePixelRatioF s = of_nat n
      \<and> axisOK n (width s) (rx (mSelection s)) (rw (mSelection s))
      \<and> axisOK n (height s) (ry (mSelection s)) (rh (mSelection s))
      \<and> anchorsOK (mMouseDragState s) n (width s) (height s) (mStartPos s))"

text \<open>
  The part of the invariant that the arrow keys rely on: the device-pixel ratio is the
  positive whole number \<open>n\<close> and the selection's device coordinates are whole numbers.
\<close>

definition deviceAligned :: "nat \<Rightarrow> QuickEditor \<Rightarrow> bool" where
  "deviceAligned n s =
     (0 < n \<and> devicePixelRatioF s = of_nat n
      \<and> rx (mSelection s) * of_nat n \<in> \<int> \<and> ry (mSelection s) * of_nat n \<in> \<int>
      \<and> rw (mSelection s) * of_nat n \<in> \<int> \<and> rh (mSelection s) * of_nat n \<in> \<int>)"

text \<open>
  The value that lines 459-462 (and 464-467) of \<open>mouseMoveEvent\<close> compute from the
  translated coordinate \<open>v\<close>: \<open>boundsLeft\<close>, then \<open>boundsRight\<close> unless the result is 0.
\<close>

definition clampTopLeft :: "int \<Rightarrow> int \<Rightarrow> int" where
  "clampTopLeft v maxv =
     (let v1 = (if v < 0 then 0 else v)
      in if v1 \<noteq> 0 then (if 0 < v1 - maxv then maxv else v1) else v1)"

fun isEscape :: "Event \<Rightarrow> bool" where
  "isEscape (KeyPress Key_Escape m) = True"
| "isEscape e = False"

section \<open>Evaluation lemmas\<close>

lemma to_int_of_int [simp]: "to_int (of_int k) = k"
  by (simp add: to_int_def)

lemma to_int_numeral [simp]:
  "to_int (numeral k) = numeral k" "to_int 0 = 0" "to_int 1 = 1"
  by (simp_all add: to_int_def)

lemma qRound_floor: "qRound d = \<lfloor>d + 1 / 2\<rfloor>"
proof (cases "0 \<le> d")
  case True
  then show ?thesis by (simp add: qRound_def to_int_def)
next
  case False
  then have neg: "d < 0" by simp
  have t: "to_int (d - 1) = \<lceil>d\<rceil> - 1"
    using neg by (simp add: to_int_def)
  have pos: "0 \<le> d - of_int (\<lceil>d\<rceil> - 1) + 1 / 2"
    by (simp add: algebra_simps) linarith
  have "to_int (d - of_int (\<lceil>d\<rceil> - 1) + 1 / 2) = \<lfloor>d - of_int (\<lceil>d\<rceil> - 1) + 1 / 2\<rfloor>"
    using pos by (simp add: to_int_def)
  also have "\<dots> = \<lfloor>d + 1 / 2\<rfloor> - (\<lceil>d\<rceil> - 1)"
  proof -
    have "d - of_int (\<lceil>d\<rceil> - 1) + 1 / 2 = (d + 1 / 2) - of_int (\<lceil>d\<rceil> - 1)" by simp
    then show ?thesis by (simp only: floor_diff_of_int)
  qed
  finally show ?thesis using neg t by (simp add: qRound_def)
qed

lemma qRound_of_int [simp]: "qRound (of_int k) = k"
  by (simp add: qRound_floor)

lemma qRound_numeral [simp]:
  "qRound (numeral k) = numeral k" "qRound 0 = 0" "qRound 1 = 1"
  using qRound_of_int [of "numeral k"] qRound_of_int [of 0] qRound_of_int [of 1] by simp_all

lemma qRound_add_int: "qRound (d + of_int k) = qRound d + k"
proof -
  have "d + of_int k + 1 / 2 = (d + 1 / 2) + of_int k" by simp
  then show ?thesis by (simp only: qRound_floor floor_add_int)
qed

lemma qRound_diff_int: "qRound (d - of_int k) = qRound d - k"
  using qRound_add_int [of d "- k"] by simp

lemma qRound_Ints: "r \<in> \<int> \<Longrightarrow> of_int (qRound r) = r"
  by (auto elim!: Ints_cases)

lemma popAll_fst: "fst (popAll pm h) = (if h = [] then pm else last h)"
  by (induction pm h rule: popAll.induct) auto

lemma popAll_snd: "snd (popAll pm h) = []"
  by (induction pm h rule: popAll.induct) auto

lemma acceptSelection_empty: "isEmpty (mSelection s) \<Longrightarrow> acceptSelection s = s"
  by (simp add: acceptSelection_def)

lemmas editor_defs =
  newQuickEditor_def canvas_def smallRaster_def plainConfig_def rememberConfig_def
  intersected_def nullRectF_def mkRectF_def mkPointF_def pt_def toPointF_def noModifier_def

section \<open>The hit-test classifier: tolerance and reach\<close>

text \<open>
  C5. Inside the selection, a position is classified as lying on an edge exactly when
  its distance from that edge is between 0 and \<open>min 20 (extent / 2)\<close>, the extent being
  the selection's height for the top and bottom edges and its width for the right and
  left edges; the top edge wins over the bottom one and the right edge over the left
  one. The tolerance on each axis is therefore \<open>min(20, half the extent)\<close> and never
  more than half the extent.
\<close>

theorem mouseLocation_tolerance:
  "((mouseLocation sel pos \<in> {Top, TopLeft, TopRight}) =
      (contains sel pos \<and> 0 \<le> py pos - ry sel \<and> py pos - ry sel \<le> min 20 (rh sel / 2)))
   \<and> ((mouseLocation sel pos \<in> {Bottom, BottomLeft, BottomRight}) =
      (contains sel pos
       \<and> \<not> (0 \<le> py pos - ry sel \<and> py pos - ry sel \<le> min 20 (rh sel / 2))
       \<and> 0 \<le> ry sel + rh sel - py pos \<and> ry sel + rh sel - py pos \<le> min 20 (rh sel / 2)))
   \<and> ((mouseLocation sel pos \<in> {Right, TopRight, BottomRight}) =
      (contains sel pos
       \<and> 0 \<le> rx sel + rw sel - px pos \<and> rx sel + rw sel - px pos \<le> min 20 (rw sel / 2)))
   \<and> ((mouseLocation sel pos \<in> {Left, TopLeft, BottomLeft}) =
      (contains sel pos
       \<and> \<not> (0 \<le> rx sel + rw sel - px pos \<and> rx sel + rw sel - px pos \<le> min 20 (rw sel / 2))
       \<and> 0 \<le> px pos - rx sel \<and> px pos - rx sel \<le> min 20 (rw sel / 2)))"
  by (auto simp add: mouseLocation_def Let_def withinThreshold_def mouseAreaSize_def
      top_of_def bottom_of_def left_of_def right_of_def)

text \<open>
  C10. A position is classified as \<open>Outside\<close> exactly when the selection rectangle does
  not contain it, however close to an edge or corner it is: for a rectangle of
  positive width and height these are the positions strictly left of, right of, above
  or below it. The tolerance bands reach inward only, so no handle is hit from outside
  the selection.
\<close>

theorem mouseLocation_not_contained:
  "(\<not> contains sel pos \<longrightarrow> mouseLocation sel pos = Outside)
   \<and> (mouseLocation sel pos \<noteq> Outside \<longrightarrow> contains sel pos)
   \<and> (0 < rw sel \<and> 0 < rh sel \<longrightarrow>
        (mouseLocation sel pos = Outside)
          = (px pos < rx sel \<or> rx sel + rw sel < px pos
             \<or> py pos < ry sel \<or> ry sel + rh sel < py pos))"
proof -
  have out: "(mouseLocation sel pos = Outside) = (\<not> contains sel pos)"
    by (simp add: mouseLocation_def Let_def)
  have geo: "contains sel pos
      = (rx sel \<le> px pos \<and> px pos \<le> rx sel + rw sel
         \<and> ry sel \<le> py pos \<and> py pos \<le> ry sel + rh sel)"
    if "0 < rw sel" "0 < rh sel"
    using that by (auto simp add: contains_def Let_def)
  show ?thesis using out geo by auto
qed

theorem mouseLocation_not_contained_witness:
  "\<not> contains (mkRectF 100 100 300 200) (mkPointF 95 100)
   \<and> 0 < rw (mkRectF 100 100 300 200) \<and> 0 < rh (mkRectF 100 100 300 200)
   \<and> px (mkPointF 95 100) < rx (mkRectF 100 100 300 200)
   \<and> mouseLocation (mkRectF 100 100 300 200) (mkPointF 95 100) = Outside"
proof -
  have out: "\<not> contains (mkRectF 100 100 300 200) (mkPointF 95 100)"
    by (simp add: contains_def mkRectF_def mkPointF_def)
  have ext: "0 < rw (mkRectF 100 100 300 200)" "0 < rh (mkRectF 100 100 300 200)"
    "px (mkPointF 95 100) < rx (mkRectF 100 100 300 200)"
    by (simp_all add: mkRectF_def mkPointF_def)
  from out ext mouseLocation_not_contained [of "mkRectF 100 100 300 200" "mkPointF 95 100"]
  show ?thesis by simp
qed

section \<open>Commit, undo and reset\<close>

text \<open>
  C2. With an annotation tool active, releasing the left button pushes the current
  raster onto the history and paints the shape; the undo that follows restores the
  raster and the history to what they were before the release, whatever the raster,
  the shape and the painting are.
\<close>

theorem commit_then_undo:
  assumes "mEditToolState s \<noteq> NoEdit"
  shows "history (mouseReleaseEvent drawElements LeftButton p s) = mPixmap s # history s
       \<and> mPixmap (undo (mouseReleaseEvent drawElements LeftButton p s)) = mPixmap s
       \<and> history (undo (mouseReleaseEvent drawElements LeftButton p s)) = history s"
  using assms
  by (cases "mEditToolState s") (simp_all add: mouseReleaseEvent_def undo_def Let_def)

theorem commit_then_undo_witness:
  "mEditToolState ((newQuickEditor smallRaster 1 plainConfig)\<lparr>mEditToolState := DrawLine\<rparr>) \<noteq> NoEdit
   \<and> mPixmap (mouseReleaseEvent fillPainter LeftButton (pt 1 1)
        ((newQuickEditor smallRaster 1 plainConfig)\<lparr>mEditToolState := DrawLine\<rparr>))
       = \<lparr>pwidth = 2, pheight = 2, pdata = [16711935, 16711935, 16711935, 16711935]\<rparr>
   \<and> mPixmap (undo (mouseReleaseEvent fillPainter LeftButton (pt 1 1)
        ((newQuickEditor smallRaster 1 plainConfig)\<lparr>mEditToolState := DrawLine\<rparr>)))
       = \<lparr>pwidth = 2, pheight = 2, pdata = [0, 0, 0, 0]\<rparr>"
proof -
  let ?s = "(newQuickEditor smallRaster 1 plainConfig)\<lparr>mEditToolState := DrawLine\<rparr>"
  have tool: "mEditToolState ?s \<noteq> NoEdit" by simp
  have painted: "mPixmap (mouseReleaseEvent fillPainter LeftButton (pt 1 1) ?s)
      = \<lparr>pwidth = 2, pheight = 2, pdata = [16711935, 16711935, 16711935, 16711935]\<rparr>"
    by (simp add: mouseReleaseEvent_def fillPainter_def editor_defs Let_def)
  have before: "mPixmap ?s = \<lparr>pwidth = 2, pheight = 2, pdata = [0, 0, 0, 0]\<rparr>"
    by (simp add: editor_defs Let_def)
  from commit_then_undo [OF tool, of fillPainter "pt 1 1"] tool painted before
  show ?thesis by simp
qed

text \<open>
  C9. Releasing the right button sets the selection's width and height to zero,
  empties the history, sets the tool state to \<open>NoEdit\<close>, ends the drag, and, when the
  history was not empty, makes its oldest snapshot (the last element of the list) the
  working raster, so that every committed annotation is reverted.
\<close>

theorem right_release_resets:
  "rw (mSelection (mouseReleaseEvent drawElements RightButton p s)) = 0
   \<and> rh (mSelection (mouseReleaseEvent drawElements RightButton p s)) = 0
   \<and> isEmpty (mSelection (mouseReleaseEvent drawElements RightButton p s))
   \<and> history (mouseReleaseEvent drawElements RightButton p s) = []
   \<and> mEditToolState (mouseReleaseEvent drawElements RightButton p s) = NoEdit
   \<and> mMouseDragState (mouseReleaseEvent drawElements RightButton p s) = MNone
   \<and> (history s \<noteq> [] \<longrightarrow>
        mPixmap (mouseReleaseEvent drawElements RightButton p s) = last (history s))
   \<and> (history s = [] \<longrightarrow>
        mPixmap (mouseReleaseEvent drawElements RightButton p s) = mPixmap s)"
  using popAll_fst [of "mPixmap s" "history s"] popAll_snd [of "mPixmap s" "history s"]
  by (auto simp add: mouseReleaseEvent_def Let_def setWidth_def setHeight_def isEmpty_def
      split: prod.splits)

theorem right_release_resets_witness:
  "history ((newQuickEditor canvas 1 plainConfig)
      \<lparr>mEditToolState := DrawRect, history := [canvas\<lparr>pdata := [2]\<rparr>, canvas\<lparr>pdata := [1]\<rparr>]\<rparr>) \<noteq> []
   \<and> mPixmap (mouseReleaseEvent fillPainter RightButton (pt 5 5)
        ((newQuickEditor canvas 1 plainConfig)
           \<lparr>mEditToolState := DrawRect, history := [canvas\<lparr>pdata := [2]\<rparr>, canvas\<lparr>pdata := [1]\<rparr>]\<rparr>))
       = canvas\<lparr>pdata := [1]\<rparr>
   \<and> history (mouseReleaseEvent fillPainter RightButton (pt 5 5)
        ((newQuickEditor canvas 1 plainConfig)
           \<lparr>mEditToolState := DrawRect, history := [canvas\<lparr>pdata := [2]\<rparr>, canvas\<lparr>pdata := [1]\<rparr>]\<rparr>))
       = []"
  using right_release_resets [of fillPainter "pt 5 5"
      "(newQuickEditor canvas 1 plainConfig)
         \<lparr>mEditToolState := DrawRect, history := [canvas\<lparr>pdata := [2]\<rparr>, canvas\<lparr>pdata := [1]\<rparr>]\<rparr>"]
  by simp

section \<open>Completion with an empty selection\<close>

text \<open>
  C3. While the selection is empty (its width or its height is zero, or less), no
  pointer or keyboard event emits \<open>grabDone\<close> or stores a crop region:
  \<open>acceptSelection\<close> (which Enter, Return, a double click and release-to-capture call)
  does nothing, and the only event that emits a signal is the Escape key, which
  emits \<open>grabCancelled\<close>.
\<close>

theorem empty_selection_only_cancels:
  assumes "isEmpty (mSelection s)"
  shows "acceptSelection s = s
       \<and> emitted (event drawElements e s)
           = emitted s @ (if isEscape e then [grabCancelled] else [])
       \<and> cropRegion (event drawElements e s) = cropRegion s"
proof (cases e)
  case (KeyPress k m)
  with assms show ?thesis
    by (cases k)
      (auto simp add: keyPressEvent_def Let_def acceptSelection_def
        boundsUp_def boundsDown_def boundsLeft_def boundsRight_def split: prod.splits)
next
  case (MouseRelease b p)
  with assms popAll_snd [of "mPixmap s" "history s"] show ?thesis
    by (cases "mEditToolState s")
      (auto simp add: mouseReleaseEvent_def Let_def acceptSelection_def split: prod.splits)
next
  case (MousePress b p)
  with assms show ?thesis
    by (cases "mEditToolState s"; cases "mouseLocation (mSelection s) (toPointF p)")
      (auto simp add: mousePressEvent_def Let_def acceptSelection_def)
next
  case (MouseMove l p)
  with assms show ?thesis
    by (cases "mEditToolState s"; cases "mMouseDragState s")
      (auto simp add: mouseMoveEvent_def movePendingShape_def dragSelection_def Let_def
        acceptSelection_def boundsUp_def boundsDown_def boundsLeft_def boundsRight_def
        split: prod.splits)
next
  case (MouseDoubleClick b p)
  with assms show ?thesis
    by (auto simp add: mouseDoubleClickEvent_def acceptSelection_def)
next
  case (KeyRelease m)
  with assms show ?thesis
    by (auto simp add: keyReleaseEvent_def acceptSelection_def)
qed

theorem empty_selection_only_cancels_witness:
  "isEmpty (mSelection (newQuickEditor canvas 1 plainConfig))
   \<and> emitted (event fillPainter (KeyPress Key_Return noModifier)
        (newQuickEditor canvas 1 plainConfig)) = []
   \<and> emitted (event fillPainter (MouseDoubleClick LeftButton (pt 0 0))
        (newQuickEditor canvas 1 plainConfig)) = []
   \<and> emitted (event fillPainter (KeyPress Key_Escape noModifier)
        (newQuickEditor canvas 1 plainConfig)) = [grabCancelled]"
proof -
  let ?s = "newQuickEditor canvas 1 plainConfig"
  have empty: "isEmpty (mSelection ?s)"
    by (simp add: isEmpty_def editor_defs Let_def)
  have none: "emitted ?s = []"
    by (simp add: editor_defs Let_def)
  from empty none
    empty_selection_only_cancels [OF empty, of fillPainter "KeyPress Key_Return noModifier"]
    empty_selection_only_cancels [OF empty, of fillPainter "MouseDoubleClick LeftButton (pt 0 0)"]
    empty_selection_only_cancels [OF empty, of fillPainter "KeyPress Key_Escape noModifier"]
  show ?thesis by simp
qed

section \<open>Arrow keys\<close>

lemma keyPress_disabled:
  "mDisableArrowKeys s \<Longrightarrow> mSelection (keyPressEvent k m s) = mSelection s"
  by (cases k) (auto simp add: keyPressEvent_def Let_def acceptSelection_def)

lemma keyPress_Up:
  assumes "\<not> mDisableArrowKeys s"
  shows "mSelection (keyPressEvent Key_Up m s) =
     (let newTop = of_int (max 0 (deviceTop s - keyStep (ShiftModifier m))) / devicePixelRatioF s
      in if AltModifier m
         then normalized ((mSelection s)\<lparr>rh := newTop + rh (mSelection s) - ry (mSelection s)\<rparr>)
         else (mSelection s)\<lparr>ry := newTop\<rparr>)"
  using assms
  by (auto simp add: keyPressEvent_def Let_def boundsUp_def qRound_diff_int top_of_def
      deviceTop_def dprI_def moveTop_def setBottom_def max_def)

lemma keyPress_Down:
  assumes "\<not> mDisableArrowKeys s"
  shows "mSelection (keyPressEvent Key_Down m s) =
     (let newTop = of_int (min (deviceTop s + keyStep (ShiftModifier m)) (realMaxY s))
                     / devicePixelRatioF s
      in if AltModifier m
         then (mSelection s)\<lparr>rh := newTop + rh (mSelection s) - ry (mSelection s)\<rparr>
         else (mSelection s)\<lparr>ry := newTop\<rparr>)"
  using assms
  by (auto simp add: keyPressEvent_def Let_def boundsDown_def qRound_add_int top_of_def
      deviceTop_def realMaxY_def height_def dprI_def moveTop_def setBottom_def min_def)

lemma keyPress_Left:
  assumes "\<not> mDisableArrowKeys s"
  shows "mSelection (keyPressEvent Key_Left m s) =
     (let newLeft = of_int (max 0 (deviceLeft s - keyStep (ShiftModifier m))) / devicePixelRatioF s
      in if AltModifier m
         then normalized ((mSelection s)\<lparr>rw := newLeft + rw (mSelection s) - rx (mSelection s)\<rparr>)
         else (mSelection s)\<lparr>rx := newLeft\<rparr>)"
  using assms
  by (auto simp add: keyPressEvent_def Let_def boundsLeft_def qRound_diff_int left_of_def
      deviceLeft_def dprI_def moveLeft_def setRight_def max_def)

lemma keyPress_Right:
  assumes "\<not> mDisableArrowKeys s"
  shows "mSelection (keyPressEvent Key_Right m s) =
     (let newLeft = of_int (min (deviceLeft s + keyStep (ShiftModifier m)) (realMaxX s))
                      / devicePixelRatioF s
      in if AltModifier m
         then (mSelection s)\<lparr>rw := newLeft + rw (mSelection s) - rx (mSelection s)\<rparr>
         else (mSelection s)\<lparr>rx := newLeft\<rparr>)"
  using assms
  by (auto simp add: keyPressEvent_def Let_def boundsRight_def qRound_add_int left_of_def
      deviceLeft_def realMaxX_def width_def dprI_def moveLeft_def setRight_def min_def)

lemma mousePress_disables:
  "mEditToolState s = NoEdit \<Longrightarrow> mDisableArrowKeys (mousePressEvent LeftButton p s)"
  by (cases "mouseLocation (mSelection s) (toPointF p)")
    (simp_all add: mousePressEvent_def Let_def)

lemma mouseMove_keeps_disabled:
  "mDisableArrowKeys (mouseMoveEvent l p s) = mDisableArrowKeys s"
  by (cases "mMouseDragState s"; cases "mEditToolState s")
    (simp_all add: mouseMoveEvent_def movePendingShape_def dragSelection_def Let_def
        boundsUp_def boundsDown_def boundsLeft_def boundsRight_def split: prod.splits)

lemma keyPress_frame:
  "mStartPos (keyPressEvent k m s) = mStartPos s
   \<and> mMouseDragState (keyPressEvent k m s) = mMouseDragState s
   \<and> devicePixelRatioF (keyPressEvent k m s) = devicePixelRatioF s
   \<and> geometry (keyPressEvent k m s) = geometry s"
  by (cases k)
    (simp_all add: keyPressEvent_def Let_def acceptSelection_def boundsUp_def boundsDown_def
      boundsLeft_def boundsRight_def split: prod.splits)

lemma aligned_back:
  assumes n: "0 < n" and x: "x * of_nat n \<in> \<int>"
  shows "of_int (max 0 (qRound (x * of_nat n) - st)) / of_nat n
         = max 0 (x - of_int st / of_nat n)"
proof -
  have T: "of_int (qRound (x * of_nat n)) = x * of_nat n" using x by (rule qRound_Ints)
  have "(of_int (max 0 (qRound (x * of_nat n) - st)) :: real)
        = max 0 (x * of_nat n - of_int st)"
    using T by (simp add: of_int_max)
  also have "\<dots> / of_nat n = max 0 (x - of_int st / of_nat n)"
    using n by (simp add: max_def field_simps)
  finally show ?thesis by simp
qed

lemma aligned_fwd:
  assumes n: "0 < n" and x: "x * of_nat n \<in> \<int>" and w: "w * of_nat n \<in> \<int>"
  shows "of_int (min (qRound (x * of_nat n) + st) (qRound ((of_int W - w) * of_nat n))) / of_nat n
         = min (x + of_int st / of_nat n) (of_int W - w)"
proof -
  have T: "of_int (qRound (x * of_nat n)) = x * of_nat n" using x by (rule qRound_Ints)
  have "(of_int W - w) * of_nat n = of_int W * of_nat n - w * of_nat n"
    by (simp add: algebra_simps)
  moreover have "of_int W * of_nat n - w * of_nat n \<in> \<int>"
  proof (rule Ints_diff)
    show "of_int W * of_nat n \<in> (\<int> :: real set)" by simp
    show "w * of_nat n \<in> \<int>" by (rule w)
  qed
  ultimately have M: "of_int (qRound ((of_int W - w) * of_nat n)) = (of_int W - w) * of_nat n"
    by (simp add: qRound_Ints)
  have "(of_int (min (qRound (x * of_nat n) + st) (qRound ((of_int W - w) * of_nat n))) :: real)
        = min (x * of_nat n + of_int st) ((of_int W - w) * of_nat n)"
    using T M by (simp add: of_int_min)
  also have "\<dots> / of_nat n = min (x + of_int st / of_nat n) (of_int W - w)"
    using n by (simp add: min_def field_simps)
  finally show ?thesis by simp
qed


lemma keyPress_device:
  assumes en: "\<not> mDisableArrowKeys s" and alt: "\<not> AltModifier m"
    and dpr: "devicePixelRatioF s \<noteq> 0"
  shows "deviceTop (keyPressEvent Key_Up m s) = max 0 (deviceTop s - keyStep (ShiftModifier m))"
    and "deviceTop (keyPressEvent Key_Down m s)
           = min (deviceTop s + keyStep (ShiftModifier m)) (realMaxY s)"
    and "deviceLeft (keyPressEvent Key_Left m s) = max 0 (deviceLeft s - keyStep (ShiftModifier m))"
    and "deviceLeft (keyPressEvent Key_Right m s)
           = min (deviceLeft s + keyStep (ShiftModifier m)) (realMaxX s)"
  using alt dpr keyPress_frame [of Key_Up m s] keyPress_frame [of Key_Down m s]
    keyPress_frame [of Key_Left m s] keyPress_frame [of Key_Right m s]
  by (simp_all add: deviceTop_def [of "keyPressEvent k m s" for k]
      deviceLeft_def [of "keyPressEvent k m s" for k]
      keyPress_Up [OF en] keyPress_Down [OF en] keyPress_Left [OF en] keyPress_Right [OF en]
      Let_def)

text \<open>
  C4, as the code has it. The step of an arrow key is taken in device pixels. Let the
  device-pixel ratio be a whole number \<open>n\<close> and the selection's device coordinates be
  whole numbers, as they are in every state the editor reaches at such a ratio. With
  \<open>mDisableArrowKeys\<close> clear, an arrow key moves the selection by \<open>keyStep\<close> device
  pixels, which is 15, or 1 with Shift, and so by \<open>15 / n\<close> or \<open>1 / n\<close> logical pixels;
  the new top or left coordinate is clamped at 0 (Up, Left) or at the widget's extent
  less the selection's (Down, Right). With Alt the height or width changes by the same
  displacement instead, and the rectangle is normalized after Up and Left. The members
  of the other axis are untouched. Without Alt the rounded device coordinate of the
  moved edge changes by exactly \<open>keyStep\<close>, clamped at 0 or at \<open>realMaxY\<close>, \<open>realMaxX\<close>.
  With \<open>mDisableArrowKeys\<close> set no key changes the selection, and a left-button press
  with no annotation tool active sets it for the moves that follow.

  At a ratio that is not a whole number the products with the ratio fall on
  half-integers, where \<open>qRound\<close> of a double and of the exact value can differ and the
  logical step is no longer \<open>15 / n\<close>; the statement is made for whole ratios only.
\<close>

theorem arrow_key_steps:
  assumes al: "deviceAligned n s"
  shows
  "(\<not> mDisableArrowKeys s \<longrightarrow>
      mSelection (keyPressEvent Key_Up m s) =
        (let newTop = max 0 (ry (mSelection s) - of_int (keyStep (ShiftModifier m)) / of_nat n)
         in if AltModifier m
            then normalized ((mSelection s)\<lparr>rh := newTop + rh (mSelection s) - ry (mSelection s)\<rparr>)
            else (mSelection s)\<lparr>ry := newTop\<rparr>)
    \<and> mSelection (keyPressEvent Key_Down m s) =
        (let newTop = min (ry (mSelection s) + of_int (keyStep (ShiftModifier m)) / of_nat n)
                        (of_int (height s) - rh (mSelection s))
         in if AltModifier m
            then (mSelection s)\<lparr>rh := newTop + rh (mSelection s) - ry (mSelection s)\<rparr>
            else (mSelection s)\<lparr>ry := newTop\<rparr>)
    \<and> mSelection (keyPressEvent Key_Left m s) =
        (let newLeft = max 0 (rx (mSelection s) - of_int (keyStep (ShiftModifier m)) / of_nat n)
         in if AltModifier m
            then normalized ((mSelection s)\<lparr>rw := newLeft + rw (mSelection s) - rx (mSelection s)\<rparr>)
            else (mSelection s)\<lparr>rx := newLeft\<rparr>)
    \<and> mSelection (keyPressEvent Key_Right m s) =
        (let newLeft = min (rx (mSelection s) + of_int (keyStep (ShiftModifier m)) / of_nat n)
                         (of_int (width s) - rw (mSelection s))
         in if AltModifier m
            then (mSelection s)\<lparr>rw := newLeft + rw (mSelection s) - rx (mSelection s)\<rparr>
            else (mSelection s)\<lparr>rx := newLeft\<rparr>)
    \<and> (\<not> AltModifier m \<longrightarrow>
          deviceTop (keyPressEvent Key_Up m s)
            = max 0 (deviceTop s - keyStep (ShiftModifier m))
        \<and> deviceTop (keyPressEvent Key_Down m s)
            = min (deviceTop s + keyStep (ShiftModifier m)) (realMaxY s)
        \<and> deviceLeft (keyPressEvent Key_Left m s)
            = max 0 (deviceLeft s - keyStep (ShiftModifier m))
        \<and> deviceLeft (keyPressEvent Key_Right m s)
            = min (deviceLeft s + keyStep (ShiftModifier m)) (realMaxX s)))
   \<and> keyStep (ShiftModifier m) = (if ShiftModifier m then 1 else 15)
   \<and> (mDisableArrowKeys s \<longrightarrow> mSelection (keyPressEvent k m s) = mSelection s)
   \<and> (mEditToolState s = NoEdit \<longrightarrow>
        mDisableArrowKeys (mousePressEvent LeftButton p s)
        \<and> mDisableArrowKeys (mouseMoveEvent l q (mousePressEvent LeftButton p s)))"
proof -
  have n: "0 < n" and dpr: "devicePixelRatioF s = of_nat n"
    and xi: "rx (mSelection s) * of_nat n \<in> \<int>" and yi: "ry (mSelection s) * of_nat n \<in> \<int>"
    and wi: "rw (mSelection s) * of_nat n \<in> \<int>" and hi: "rh (mSelection s) * of_nat n \<in> \<int>"
    using al by (simp_all add: deviceAligned_def)
  have nz: "devicePixelRatioF s \<noteq> 0" using n dpr by simp
  note st = keyStep_def
  have up: "of_int (max 0 (deviceTop s - keyStep (ShiftModifier m))) / devicePixelRatioF s
            = max 0 (ry (mSelection s) - of_int (keyStep (ShiftModifier m)) / of_nat n)"
    using aligned_back [OF n yi] by (simp add: deviceTop_def dpr)
  have left: "of_int (max 0 (deviceLeft s - keyStep (ShiftModifier m))) / devicePixelRatioF s
            = max 0 (rx (mSelection s) - of_int (keyStep (ShiftModifier m)) / of_nat n)"
    using aligned_back [OF n xi] by (simp add: deviceLeft_def dpr)
  have down: "of_int (min (deviceTop s + keyStep (ShiftModifier m)) (realMaxY s))
                / devicePixelRatioF s
            = min (ry (mSelection s) + of_int (keyStep (ShiftModifier m)) / of_nat n)
                (of_int (height s) - rh (mSelection s))"
    using aligned_fwd [OF n yi hi] by (simp add: deviceTop_def realMaxY_def dpr)
  have right: "of_int (min (deviceLeft s + keyStep (ShiftModifier m)) (realMaxX s))
                / devicePixelRatioF s
            = min (rx (mSelection s) + of_int (keyStep (ShiftModifier m)) / of_nat n)
                (of_int (width s) - rw (mSelection s))"
    using aligned_fwd [OF n xi wi] by (simp add: deviceLeft_def realMaxX_def dpr)
  have moves: "mSelection (keyPressEvent Key_Up m s) =
        (let newTop = max 0 (ry (mSelection s) - of_int (keyStep (ShiftModifier m)) / of_nat n)
         in if AltModifier m
            then normalized ((mSelection s)\<lparr>rh := newTop + rh (mSelection s) - ry (mSelection s)\<rparr>)
            else (mSelection s)\<lparr>ry := newTop\<rparr>)"
    "mSelection (keyPressEvent Key_Down m s) =
        (let newTop = min (ry (mSelection s) + of_int (keyStep (ShiftModifier m)) / of_nat n)
                        (of_int (height s) - rh (mSelection s))
         in if AltModifier m
            then (mSelection s)\<lparr>rh := newTop + rh (mSelection s) - ry (mSelection s)\<rparr>
            else (mSelection s)\<lparr>ry := newTop\<rparr>)"
    "mSelection (keyPressEvent Key_Left m s) =
        (let newLeft = max 0 (rx (mSelection s) - of_int (keyStep (ShiftModifier m)) / of_nat n)
         in if AltModifier m
            then normalized ((mSelection s)\<lparr>rw := newLeft + rw (mSelection s) - rx (mSelection s)\<rparr>)
            else (mSelection s)\<lparr>rx := newLeft\<rparr>)"
    "mSelection (keyPressEvent Key_Right m s) =
        (let newLeft = min (rx (mSelection s) + of_int (keyStep (ShiftModifier m)) / of_nat n)
                         (of_int (width s) - rw (mSelection s))
         in if AltModifier m
            then (mSelection s)\<lparr>rw := newLeft + rw (mSelection s) - rx (mSelection s)\<rparr>
            else (mSelection s)\<lparr>rx := newLeft\<rparr>)"
    if en: "\<not> mDisableArrowKeys s"
    unfolding keyPress_Up [OF en] keyPress_Down [OF en] keyPress_Left [OF en]
      keyPress_Right [OF en] Let_def up down left right
    by (rule refl)+
  have step: "keyStep (ShiftModifier m) = (if ShiftModifier m then 1 else 15)"
    by (simp add: keyStep_def magnifierLargeStep_def)
  show ?thesis
    using moves keyPress_device [of s m, OF _ _ nz] step
      keyPress_disabled [of s k m] mousePress_disables [of s p]
      mouseMove_keeps_disabled [of l q "mousePressEvent LeftButton p s"]
    by blast
qed

lemmas key_eval_defs =
  keyPressEvent_def keyStep_def magnifierLargeStep_def top_of_def left_of_def
  boundsUp_def boundsDown_def boundsLeft_def boundsRight_def realMaxX_def realMaxY_def
  deviceTop_def deviceLeft_def width_def height_def dprI_def moveTop_def moveLeft_def
  setBottom_def setRight_def

lemmas press_eval_defs =
  mousePressEvent_def mouseLocation_def contains_def withinThreshold_def mouseAreaSize_def
  top_of_def bottom_of_def left_of_def right_of_def
  topLeft_def topRight_def bottomLeft_def bottomRight_def

theorem arrow_key_steps_witness:
  "deviceAligned 2 (newQuickEditor canvas 2 (rememberConfig 100 100 300 200))
   \<and> \<not> mDisableArrowKeys (newQuickEditor canvas 2 (rememberConfig 100 100 300 200))
   \<and> mEditToolState (newQuickEditor canvas 2 (rememberConfig 100 100 300 200)) = NoEdit
   \<and> mSelection (newQuickEditor canvas 2 (rememberConfig 100 100 300 200))
       = mkRectF 50 50 150 100
   \<and> mSelection (keyPressEvent Key_Down noModifier
        (newQuickEditor canvas 2 (rememberConfig 100 100 300 200)))
       = mkRectF 50 (50 + 15 / 2) 150 100
   \<and> deviceTop (keyPressEvent Key_Down noModifier
        (newQuickEditor canvas 2 (rememberConfig 100 100 300 200))) = 100 + 15
   \<and> mSelection (keyPressEvent Key_Left \<lparr>ShiftModifier = True, AltModifier = True\<rparr>
        (newQuickEditor canvas 2 (rememberConfig 100 100 300 200)))
       = mkRectF 50 50 (150 - 1 / 2) 100
   \<and> deviceAligned 2 (mousePressEvent LeftButton (pt 10 10)
        (newQuickEditor canvas 2 (rememberConfig 100 100 300 200)))
   \<and> mDisableArrowKeys (mousePressEvent LeftButton (pt 10 10)
        (newQuickEditor canvas 2 (rememberConfig 100 100 300 200)))
   \<and> mSelection (keyPressEvent Key_Down noModifier (mousePressEvent LeftButton (pt 10 10)
        (newQuickEditor canvas 2 (rememberConfig 100 100 300 200)))) = mkRectF 50 50 150 100"
proof -
  let ?s = "newQuickEditor canvas 2 (rememberConfig 100 100 300 200)"
  let ?m = "\<lparr>ShiftModifier = True, AltModifier = True\<rparr>"
  have enabled: "\<not> mDisableArrowKeys ?s" and tool: "mEditToolState ?s = NoEdit"
    by (simp_all add: editor_defs Let_def)
  have sel: "mSelection ?s = mkRectF 50 50 150 100"
    by (simp add: editor_defs Let_def)
  have geo: "deviceTop ?s = 100" "realMaxY ?s = 600" "height ?s = 400" "width ?s = 500"
    by (simp_all add: deviceTop_def realMaxY_def width_def height_def editor_defs Let_def)
  have al: "deviceAligned 2 ?s"
    by (simp add: deviceAligned_def editor_defs Let_def)
  have pressed: "mSelection (mousePressEvent LeftButton (pt 10 10) ?s) = mkRectF 50 50 150 100"
    by (simp add: press_eval_defs editor_defs Let_def)
  have alp: "deviceAligned 2 (mousePressEvent LeftButton (pt 10 10) ?s)"
    by (simp add: deviceAligned_def press_eval_defs editor_defs Let_def)
  from arrow_key_steps [OF al, of noModifier Key_Down "pt 10 10" True "pt 10 10"]
    arrow_key_steps [OF al, of ?m Key_Left "pt 10 10" True "pt 10 10"]
    arrow_key_steps [OF alp, of noModifier Key_Down "pt 10 10" True "pt 10 10"]
    al alp enabled tool sel geo pressed
  show ?thesis
    by (simp add: Let_def noModifier_def mkRectF_def normalized_def)
qed

text \<open>
  At a device-pixel ratio of 2 the Down key moves the selection of the remembered
  region by 7.5 logical pixels, not by 15.
\<close>

theorem arrow_key_steps_counterexample:
  "devicePixelRatioF (newQuickEditor canvas 2 (rememberConfig 100 100 300 200)) = 2
   \<and> \<not> mDisableArrowKeys (newQuickEditor canvas 2 (rememberConfig 100 100 300 200))
   \<and> mMouseDragState (newQuickEditor canvas 2 (rememberConfig 100 100 300 200)) = MNone
   \<and> mSelection (newQuickEditor canvas 2 (rememberConfig 100 100 300 200))
       = mkRectF 50 50 150 100
   \<and> mSelection (keyPressEvent Key_Down noModifier
        (newQuickEditor canvas 2 (rememberConfig 100 100 300 200))) = mkRectF 50 (115 / 2) 150 100
   \<and> ry (mSelection (keyPressEvent Key_Down noModifier
        (newQuickEditor canvas 2 (rememberConfig 100 100 300 200))))
       - ry (mSelection (newQuickEditor canvas 2 (rememberConfig 100 100 300 200))) \<noteq> 15"
  by (simp add: editor_defs key_eval_defs qRound_def to_int_def Let_def)

section \<open>Resizing from opposite corners\<close>

lemma corner_move:
  "isCorner c \<Longrightarrow>
   mSelection (mouseMoveEvent l b (s\<lparr>mMouseDragState := c, mStartPos := a\<rparr>))
     = cornerRect (dprI s) a (toPointF b)"
  by (cases c)
    (auto simp add: mouseMoveEvent_def Let_def movePendingShape_def dprI_def
      split: EditToolState.splits)

lemma isCorner_opposite: "isCorner c \<Longrightarrow> isCorner (opposite c)"
  by (cases c) simp_all

text \<open>
  C6, as the code has it. Take two pointer positions \<open>a\<close> and \<open>b\<close>. Resizing from a
  corner handle with the anchor at \<open>a\<close> and the pointer at \<open>b\<close>, and resizing from the
  diagonally opposite handle with the anchor at \<open>b\<close> and the pointer at \<open>a\<close>, give
  rectangles with the same top-left corner, the componentwise minimum of \<open>a\<close> and \<open>b\<close>.
  Their extents are the distance between \<open>a\<close> and \<open>b\<close> plus \<open>dprI\<close> (one device pixel)
  on the side where the pointer is not before the anchor, so on every axis where \<open>a\<close>
  and \<open>b\<close> differ the two rectangles differ by one device pixel, and they are equal
  only when \<open>a = b\<close>. Both are normalized already.
\<close>

theorem opposite_corner_resize:
  assumes "isCorner c" and "0 < devicePixelRatioF s"
  shows
    "let r1 = mSelection (mouseMoveEvent l b (s\<lparr>mMouseDragState := c, mStartPos := toPointF a\<rparr>));
         r2 = mSelection (mouseMoveEvent l a
                (s\<lparr>mMouseDragState := opposite c, mStartPos := toPointF b\<rparr>))
     in rx r1 = of_int (min (qx a) (qx b)) \<and> rx r2 = rx r1
      \<and> ry r1 = of_int (min (qy a) (qy b)) \<and> ry r2 = ry r1
      \<and> rw r1 = of_int \<bar>qx b - qx a\<bar> + (if qx a \<le> qx b then dprI s else 0)
      \<and> rw r2 = of_int \<bar>qx b - qx a\<bar> + (if qx b \<le> qx a then dprI s else 0)
      \<and> rh r1 = of_int \<bar>qy b - qy a\<bar> + (if qy a \<le> qy b then dprI s else 0)
      \<and> rh r2 = of_int \<bar>qy b - qy a\<bar> + (if qy b \<le> qy a then dprI s else 0)
      \<and> normalized r1 = r1 \<and> normalized r2 = r2
      \<and> (r1 = r2) = (a = b)"
proof -
  have d: "0 < dprI s"
    using assms(2) by (simp add: dprI_def)
  have r1: "mSelection (mouseMoveEvent l b (s\<lparr>mMouseDragState := c, mStartPos := toPointF a\<rparr>))
      = cornerRect (dprI s) (toPointF a) (toPointF b)"
    using assms(1) by (rule corner_move)
  have r2: "mSelection (mouseMoveEvent l a
        (s\<lparr>mMouseDragState := opposite c, mStartPos := toPointF b\<rparr>))
      = cornerRect (dprI s) (toPointF b) (toPointF a)"
    using isCorner_opposite [OF assms(1)] by (rule corner_move)
  have eq: "(cornerRect (dprI s) (toPointF a) (toPointF b)
             = cornerRect (dprI s) (toPointF b) (toPointF a)) = (a = b)"
  proof
    assume "cornerRect (dprI s) (toPointF a) (toPointF b)
            = cornerRect (dprI s) (toPointF b) (toPointF a)"
    then have "rw (cornerRect (dprI s) (toPointF a) (toPointF b))
               = rw (cornerRect (dprI s) (toPointF b) (toPointF a))"
      and "rh (cornerRect (dprI s) (toPointF a) (toPointF b))
               = rh (cornerRect (dprI s) (toPointF b) (toPointF a))"
      by simp_all
    then have "qx a = qx b" and "qy a = qy b"
      using d by (simp_all add: cornerRect_def Let_def mkRectF_def toPointF_def mkPointF_def
          split: if_splits)
    then show "a = b" by simp
  next
    assume "a = b"
    then show "cornerRect (dprI s) (toPointF a) (toPointF b)
               = cornerRect (dprI s) (toPointF b) (toPointF a)" by simp
  qed
  have fields:
    "rx (cornerRect (dprI s) (toPointF a) (toPointF b)) = of_int (min (qx a) (qx b))"
    "rx (cornerRect (dprI s) (toPointF b) (toPointF a)) = of_int (min (qx a) (qx b))"
    "ry (cornerRect (dprI s) (toPointF a) (toPointF b)) = of_int (min (qy a) (qy b))"
    "ry (cornerRect (dprI s) (toPointF b) (toPointF a)) = of_int (min (qy a) (qy b))"
    "rw (cornerRect (dprI s) (toPointF a) (toPointF b))
       = of_int \<bar>qx b - qx a\<bar> + (if qx a \<le> qx b then dprI s else 0)"
    "rw (cornerRect (dprI s) (toPointF b) (toPointF a))
       = of_int \<bar>qx b - qx a\<bar> + (if qx b \<le> qx a then dprI s else 0)"
    "rh (cornerRect (dprI s) (toPointF a) (toPointF b))
       = of_int \<bar>qy b - qy a\<bar> + (if qy a \<le> qy b then dprI s else 0)"
    "rh (cornerRect (dprI s) (toPointF b) (toPointF a))
       = of_int \<bar>qy b - qy a\<bar> + (if qy b \<le> qy a then dprI s else 0)"
    by (simp_all add: cornerRect_def Let_def mkRectF_def toPointF_def mkPointF_def min_def)
  have norm: "normalized (cornerRect (dprI s) p q) = cornerRect (dprI s) p q" for p q
    using d by (simp add: normalized_def cornerRect_def Let_def mkRectF_def)
  show ?thesis
    unfolding Let_def r1 r2 using eq fields norm by simp
qed

theorem opposite_corner_resize_witness:
  "isCorner TopLeft
   \<and> 0 < devicePixelRatioF (newQuickEditor canvas 1 plainConfig)
   \<and> mSelection (mouseMoveEvent True (pt 100 100)
        ((newQuickEditor canvas 1 plainConfig)
           \<lparr>mMouseDragState := TopLeft, mStartPos := toPointF (pt 400 300)\<rparr>))
       = mkRectF 100 100 300 200
   \<and> mSelection (mouseMoveEvent True (pt 400 300)
        ((newQuickEditor canvas 1 plainConfig)
           \<lparr>mMouseDragState := opposite TopLeft, mStartPos := toPointF (pt 100 100)\<rparr>))
       = mkRectF 100 100 301 201"
proof -
  let ?s = "newQuickEditor canvas 1 plainConfig"
  have dpr: "0 < devicePixelRatioF ?s" and dpri: "dprI ?s = 1"
    by (simp_all add: dprI_def editor_defs Let_def)
  have corner: "isCorner TopLeft" by simp
  from opposite_corner_resize [OF corner dpr, of True "pt 100 100" "pt 400 300"] dpr dpri
  show ?thesis
    by (simp add: Let_def pt_def mkRectF_def)
qed

text \<open>
  The selection \<open>rect(390,290,10,10)\<close> is resized from its top-left handle (anchor
  \<open>(400,300)\<close>) to the pointer \<open>(100,100)\<close>; the selection \<open>rect(100,100,10,10)\<close> is resized
  from its bottom-right handle (anchor \<open>(100,100)\<close>) to the pointer \<open>(400,300)\<close>. The same
  two endpoints, in reverse order, give \<open>rect(100,100,300,200)\<close> and
  \<open>rect(100,100,301,201)\<close>.
\<close>

theorem opposite_corner_resize_counterexample:
  "mMouseDragState (mousePressEvent LeftButton (pt 390 290)
      (newQuickEditor canvas 1 (rememberConfig 390 290 10 10))) = TopLeft
   \<and> mStartPos (mousePressEvent LeftButton (pt 390 290)
      (newQuickEditor canvas 1 (rememberConfig 390 290 10 10))) = mkPointF 400 300
   \<and> mMouseDragState (mousePressEvent LeftButton (pt 110 110)
      (newQuickEditor canvas 1 (rememberConfig 100 100 10 10))) = BottomRight
   \<and> mStartPos (mousePressEvent LeftButton (pt 110 110)
      (newQuickEditor canvas 1 (rememberConfig 100 100 10 10))) = mkPointF 100 100
   \<and> mSelection (mouseMoveEvent True (pt 100 100) (mousePressEvent LeftButton (pt 390 290)
      (newQuickEditor canvas 1 (rememberConfig 390 290 10 10)))) = mkRectF 100 100 300 200
   \<and> mSelection (mouseMoveEvent True (pt 400 300) (mousePressEvent LeftButton (pt 110 110)
      (newQuickEditor canvas 1 (rememberConfig 100 100 10 10)))) = mkRectF 100 100 301 201
   \<and> normalized (mSelection (mouseMoveEvent True (pt 100 100)
        (mousePressEvent LeftButton (pt 390 290)
          (newQuickEditor canvas 1 (rememberConfig 390 290 10 10)))))
      \<noteq> normalized (mSelection (mouseMoveEvent True (pt 400 300)
        (mousePressEvent LeftButton (pt 110 110)
          (newQuickEditor canvas 1 (rememberConfig 100 100 10 10)))))"
  by (simp add: mouseMoveEvent_def movePendingShape_def cornerRect_def dprI_def normalized_def
      press_eval_defs editor_defs Let_def)

section \<open>The magnifier at the canvas corner\<close>

text \<open>
  C7, as the code has it. With the pointer at \<open>(0,0)\<close> the sample region is the square
  of side \<open>2 * 16 + 1 = 33\<close> device pixels that starts at \<open>(0,0)\<close>, and the recorded offset
  is \<open>-16\<close> on both axes: it is signed, negative at the left and top edges, and its
  magnitude is the clamp amount. The top and left cross-hair bars are shortened by it
  to length 0, and the right and bottom bars are lengthened by it to \<open>5 * 32 = 160\<close>.
  This holds for every device-pixel ratio and every canvas size.
\<close>

theorem magnifier_at_origin:
  "magniRect (drawMagnifier (s\<lparr>mMousePos := mkPointF 0 0\<rparr>)) = mkRectF 0 0 33 33
   \<and> offsetX (drawMagnifier (s\<lparr>mMousePos := mkPointF 0 0\<rparr>)) = - 16
   \<and> offsetY (drawMagnifier (s\<lparr>mMousePos := mkPointF 0 0\<rparr>)) = - 16
   \<and> rh (crossHairTop (drawMagnifier (s\<lparr>mMousePos := mkPointF 0 0\<rparr>))) = 0
   \<and> rw (crossHairLeft (drawMagnifier (s\<lparr>mMousePos := mkPointF 0 0\<rparr>))) = 0
   \<and> rw (crossHairRight (drawMagnifier (s\<lparr>mMousePos := mkPointF 0 0\<rparr>))) = 160
   \<and> rh (crossHairBottom (drawMagnifier (s\<lparr>mMousePos := mkPointF 0 0\<rparr>))) = 160"
  by (simp add: drawMagnifier_def magClamp_def magPixels_def magZoom_def magOffset_def Let_def
      mkPointF_def mkRectF_def to_int_def)

text \<open>
  A left press at \<open>(0,0)\<close> on the canvas of 1000 x 800 pixels, with the magnifier
  switched on in the settings: the magnifier is shown, and the offset it records is
  \<open>-16\<close>, which is not positive.
\<close>

theorem magnifier_at_origin_counterexample:
  "mMousePos (mousePressEvent LeftButton (pt 0 0) (newQuickEditor canvas 1 plainConfig))
     = mkPointF 0 0
   \<and> magnifierShown (mousePressEvent LeftButton (pt 0 0) (newQuickEditor canvas 1 plainConfig))
   \<and> magniRect (drawMagnifier
        (mousePressEvent LeftButton (pt 0 0) (newQuickEditor canvas 1 plainConfig)))
       = mkRectF 0 0 33 33
   \<and> offsetX (drawMagnifier
        (mousePressEvent LeftButton (pt 0 0) (newQuickEditor canvas 1 plainConfig))) = - 16
   \<and> \<not> 0 < offsetX (drawMagnifier
        (mousePressEvent LeftButton (pt 0 0) (newQuickEditor canvas 1 plainConfig)))
   \<and> \<not> 0 < offsetY (drawMagnifier
        (mousePressEvent LeftButton (pt 0 0) (newQuickEditor canvas 1 plainConfig)))"
  by (simp add: drawMagnifier_def magClamp_def magPixels_def magZoom_def magOffset_def Let_def
      to_int_def magnifierShown_def press_eval_defs editor_defs)

section \<open>The deferred re-arm after undo\<close>

lemma undo_tool:
  "mEditToolState (undo s) = NoEdit
   \<and> pendingTimers (undo s) = pendingTimers s @ [mEditToolState s]
   \<and> mLine (undo s) = mLine s \<and> mRect (undo s) = mRect s"
  by (simp add: undo_def Let_def split: list.splits)

lemma mousePress_NoEdit:
  assumes "mEditToolState s = NoEdit"
  shows "mEditToolState (mousePressEvent b p s) = NoEdit
       \<and> pendingTimers (mousePressEvent b p s) = pendingTimers s
       \<and> mLine (mousePressEvent b p s) = mLine s
       \<and> mRect (mousePressEvent b p s) = mRect s
       \<and> mPixmap (mousePressEvent b p s) = mPixmap s
       \<and> history (mousePressEvent b p s) = history s"
  using assms
  by (cases "mouseLocation (mSelection s) (toPointF p)")
    (simp_all add: mousePressEvent_def Let_def)

text \<open>
  C8, as the code has it. \<open>undo\<close> sets the tool state to \<open>NoEdit\<close> and queues the
  callback that restores the tool. A press that arrives before the callback runs does
  not start a shape: it leaves the pending line and rectangle, the raster and the
  history as they are, and the tool state stays \<open>NoEdit\<close>. It does not cancel the
  callback either: the callback stays queued and, when it runs, restores the tool that
  was active before the undo, also in the middle of the gesture the press began.
\<close>

theorem undo_rearm:
  "mEditToolState (undo s) = NoEdit
   \<and> pendingTimers (undo s) = pendingTimers s @ [mEditToolState s]
   \<and> mEditToolState (mousePressEvent b p (undo s)) = NoEdit
   \<and> mLine (mousePressEvent b p (undo s)) = mLine s
   \<and> mRect (mousePressEvent b p (undo s)) = mRect s
   \<and> mPixmap (mousePressEvent b p (undo s)) = mPixmap (undo s)
   \<and> history (mousePressEvent b p (undo s)) = history (undo s)
   \<and> pendingTimers (mousePressEvent b p (undo s)) = pendingTimers (undo s)
   \<and> (pendingTimers s = [] \<longrightarrow>
        mEditToolState (timerFired (mousePressEvent b p (undo s))) = mEditToolState s
        \<and> pendingTimers (timerFired (mousePressEvent b p (undo s))) = [])"
  using undo_tool [of s] mousePress_NoEdit [of "undo s" b p]
  by (simp add: timerFired_def)

theorem undo_rearm_witness:
  "pendingTimers armedEditor = []
   \<and> mEditToolState armedEditor = DrawLine
   \<and> mEditToolState (mousePressEvent LeftButton (pt 0 0) (undo armedEditor)) = NoEdit
   \<and> mEditToolState (timerFired (mousePressEvent LeftButton (pt 0 0) (undo armedEditor)))
       = DrawLine"
proof -
  have none: "pendingTimers armedEditor = []" and tool: "mEditToolState armedEditor = DrawLine"
    by (simp_all add: armedEditor_def editor_defs Let_def)
  from undo_rearm [of armedEditor LeftButton "pt 0 0"] none tool
  show ?thesis by simp
qed

text \<open>
  The tool is \<open>DrawLine\<close>. After the undo a left press arrives while the callback is
  still queued; the callback runs; the button is released. The release commits a line:
  it pushes the raster onto the history and paints.
\<close>

theorem undo_rearm_counterexample:
  "mEditToolState (undo armedEditor) = NoEdit
   \<and> pendingTimers (undo armedEditor) = [DrawLine]
   \<and> pendingTimers (mousePressEvent LeftButton (pt 0 0) (undo armedEditor)) = [DrawLine]
   \<and> mEditToolState (timerFired (mousePressEvent LeftButton (pt 0 0) (undo armedEditor)))
       = DrawLine
   \<and> history (mouseReleaseEvent fillPainter LeftButton (pt 1 1)
        (timerFired (mousePressEvent LeftButton (pt 0 0) (undo armedEditor)))) = [smallRaster]
   \<and> mPixmap (mouseReleaseEvent fillPainter LeftButton (pt 1 1)
        (timerFired (mousePressEvent LeftButton (pt 0 0) (undo armedEditor))))
       = \<lparr>pwidth = 2, pheight = 2, pdata = [16711935, 16711935, 16711935, 16711935]\<rparr>
   \<and> mPixmap (mouseReleaseEvent fillPainter LeftButton (pt 1 1)
        (timerFired (mousePressEvent LeftButton (pt 0 0) (undo armedEditor))))
       \<noteq> mPixmap (undo armedEditor)"
  by (simp add: armedEditor_def undo_def timerFired_def mouseReleaseEvent_def fillPainter_def
      press_eval_defs editor_defs Let_def)

section \<open>The selection stays inside the canvas\<close>

subsection \<open>Whole device coordinates\<close>

lemma corner_axis:
  assumes n: "0 < n" and a: "anchorOK n W a" and p: "0 \<le> p" "p < W"
  shows "axisOK n W (if a \<le> of_int p then a else of_int p)
           (\<bar>of_int p - a\<bar> + (if a \<le> of_int p then 1 / of_nat n else 0))"
proof -
  have pn: "of_int p * of_nat n \<in> (\<int> :: real set)" by simp
  have an: "a * of_nat n \<in> \<int>" using a by (simp add: anchorOK_def)
  have le1: "1 / of_nat n \<le> (1::real)" using n by simp
  have pW: "(of_int p :: real) \<le> of_int W - 1" using p by linarith
  have top: "of_int p + 1 / of_nat n \<le> (of_int W :: real)" using le1 pW by linarith
  show ?thesis
  proof (cases "a \<le> of_int p")
    case True
    have "(of_int p - a + 1 / of_nat n) * of_nat n = of_int p * of_nat n - a * of_nat n + 1"
      using n by (simp add: algebra_simps)
    moreover have "of_int p * of_nat n - a * of_nat n + 1 \<in> \<int>"
      using pn an by (intro Ints_add Ints_diff Ints_1)
    ultimately have "(of_int p - a + 1 / of_nat n) * of_nat n \<in> \<int>" by simp
    then show ?thesis using True a an top
      by (simp add: axisOK_def anchorOK_def)
  next
    case False
    have "(a - of_int p) * of_nat n = a * of_nat n - of_int p * of_nat n"
      by (simp add: algebra_simps)
    moreover have "a * of_nat n - of_int p * of_nat n \<in> \<int>"
      using pn an by (intro Ints_diff)
    ultimately have "(a - of_int p) * of_nat n \<in> \<int>" by simp
    then show ?thesis using False a p pn
      by (simp add: axisOK_def anchorOK_def)
  qed
qed

lemma outside_axis:
  assumes n: "0 < n" and a: "pressOK n W a" and p: "0 \<le> p" "p < W"
  shows "axisOK n W (min (of_int p) a) (\<bar>of_int p - a\<bar> + 1 / of_nat n)"
proof -
  have pn: "of_int p * of_nat n \<in> (\<int> :: real set)" by simp
  have an: "a * of_nat n \<in> \<int>" using a by (simp add: pressOK_def)
  have le1: "1 / of_nat n \<le> (1::real)" using n by simp
  have pW: "(of_int p :: real) \<le> of_int W - 1" using p by linarith
  have top: "of_int p + 1 / of_nat n \<le> (of_int W :: real)" using le1 pW by linarith
  have "(\<bar>of_int p - a\<bar> + 1 / of_nat n) * of_nat n
        = \<bar>of_int p * of_nat n - a * of_nat n\<bar> + 1"
    using n by (simp add: algebra_simps abs_if)
  moreover have "\<bar>of_int p * of_nat n - a * of_nat n\<bar> + 1 \<in> \<int>"
    using pn an by (intro Ints_add Ints_abs Ints_diff Ints_1)
  ultimately have w: "(\<bar>of_int p - a\<bar> + 1 / of_nat n) * of_nat n \<in> \<int>" by simp
  have m: "min (of_int p) a * of_nat n \<in> \<int>"
    using pn an by (simp add: min_def)
  show ?thesis using a top w m p
    by (auto simp add: axisOK_def pressOK_def min_def abs_if)
qed


lemma dragSelection_frame:
  "devicePixelRatioF (dragSelection pos s) = devicePixelRatioF s
   \<and> geometry (dragSelection pos s) = geometry s
   \<and> mMouseDragState (dragSelection pos s) = mMouseDragState s"
  by (simp add: dragSelection_def boundsLeft_def boundsRight_def boundsUp_def boundsDown_def
      Let_def split: prod.splits)

lemma clampTopLeft_range: "0 \<le> maxv \<Longrightarrow> 0 \<le> clampTopLeft v maxv \<and> clampTopLeft v maxv \<le> maxv"
  by (simp add: clampTopLeft_def Let_def)

lemma dragSelection_sel:
  "mSelection (dragSelection pos s)
     = (mSelection s)
         \<lparr>rx := of_int (clampTopLeft
                  (qRound ((px pos - px (mStartPos s) + px (mInitialTopLeft s)) * devicePixelRatioF s))
                  (realMaxX s)) * dprI s,
          ry := of_int (clampTopLeft
                  (qRound ((py pos - py (mStartPos s) + py (mInitialTopLeft s)) * devicePixelRatioF s))
                  (realMaxY s)) * dprI s\<rparr>"
  by (simp add: dragSelection_def boundsLeft_def boundsRight_def boundsUp_def boundsDown_def
      realMaxX_def realMaxY_def width_def height_def dprI_def moveTo_def mkPointF_def
      clampTopLeft_def Let_def split: prod.splits)

lemma drag_axis:
  assumes n: "0 < n" and ok: "axisOK n W x w"
    and X: "0 \<le> X" "X \<le> qRound ((of_int W - w) * of_nat n)"
  shows "axisOK n W (of_int X * (1 / of_nat n)) w"
proof -
  have "(of_int W - w) * of_nat n = of_int W * of_nat n - w * of_nat n"
    by (simp add: algebra_simps)
  moreover have "of_int W * of_nat n - w * of_nat n \<in> \<int>"
  proof (rule Ints_diff)
    show "of_int W * of_nat n \<in> (\<int> :: real set)" by simp
    show "w * of_nat n \<in> \<int>" using ok by (simp add: axisOK_def)
  qed
  ultimately have "of_int (qRound ((of_int W - w) * of_nat n)) = (of_int W - w) * of_nat n"
    by (simp add: qRound_Ints)
  then have "of_int X \<le> (of_int W - w) * of_nat n"
    using X(2) by (metis of_int_le_iff)
  then have "of_int X / of_nat n \<le> of_int W - w"
    using n by (simp add: pos_divide_le_eq)
  then show ?thesis using ok X(1) n
    by (simp add: axisOK_def)
qed

lemma realMax_nonneg:
  assumes n: "0 < n" and ok: "axisOK n W x w"
  shows "0 \<le> qRound ((of_int W - w) * of_nat n)"
proof -
  have "0 \<le> (of_int W - w) * of_nat n" using ok by (simp add: axisOK_def)
  then show ?thesis by (simp add: qRound_floor)
qed


lemma axis_anchor_lo: "axisOK n W x w \<Longrightarrow> anchorOK n W x"
  by (simp add: axisOK_def anchorOK_def)

lemma axis_anchor_hi: "axisOK n W x w \<Longrightarrow> anchorOK n W (x + w)"
  by (simp add: axisOK_def anchorOK_def algebra_simps)

lemma pos_pressOK: "0 < n \<Longrightarrow> 0 \<le> p \<Longrightarrow> p < W \<Longrightarrow> pressOK n W (of_int p)"
proof -
  assume n: "0 < n" and p: "0 \<le> p" "p < W"
  have le1: "1 / of_nat n \<le> (1::real)" using n by simp
  have pW: "(of_int p :: real) \<le> of_int W - 1" using p by linarith
  have top: "of_int p + 1 / of_nat n \<le> (of_int W :: real)" using le1 pW by linarith
  show ?thesis using top p by (simp add: pressOK_def)
qed

lemma mousePress_inv:
  assumes inv: "editorInv n s" and pos: "posInWidget s p"
  shows "editorInv n (mousePressEvent b p s)"
proof (cases "mEditToolState s = NoEdit")
  case False
  then show ?thesis using inv
    by (cases "mEditToolState s")
      (simp_all add: mousePressEvent_def Let_def editorInv_def width_def height_def)
next
  case True
  note tool = this
  show ?thesis
  proof (cases "b = LeftButton")
    case False
    then show ?thesis using inv tool by (simp add: mousePressEvent_def Let_def)
  next
    case True
    have n: "0 < n" using inv by (simp add: editorInv_def)
    have X: "axisOK n (width s) (rx (mSelection s)) (rw (mSelection s))"
      and Y: "axisOK n (height s) (ry (mSelection s)) (rh (mSelection s))"
      using inv by (simp_all add: editorInv_def)
    have P: "pressOK n (width s) (of_int (qx p))" "pressOK n (height s) (of_int (qy p))"
      using pos n by (simp_all add: posInWidget_def pos_pressOK)
    note A = axis_anchor_lo [OF X] axis_anchor_hi [OF X] axis_anchor_lo [OF Y] axis_anchor_hi [OF Y]
    show ?thesis using inv tool True P A
      by (cases "mouseLocation (mSelection s) (toPointF p)")
        (simp_all add: mousePressEvent_def Let_def editorInv_def width_def height_def
          topLeft_def topRight_def bottomLeft_def bottomRight_def mkPointF_def toPointF_def)
  qed
qed

lemma movePendingShape_frame:
  "mSelection (movePendingShape l p s) = mSelection s
   \<and> mStartPos (movePendingShape l p s) = mStartPos s
   \<and> mInitialTopLeft (movePendingShape l p s) = mInitialTopLeft s
   \<and> mMouseDragState (movePendingShape l p s) = mMouseDragState s
   \<and> devicePixelRatioF (movePendingShape l p s) = devicePixelRatioF s
   \<and> geometry (movePendingShape l p s) = geometry s"
  by (cases "mEditToolState s") (simp_all add: movePendingShape_def)


lemma dragSelection_inv:
  assumes inv: "editorInv n s" and st: "mMouseDragState s = Inside"
  shows "editorInv n (dragSelection pos s)"
proof -
  have n: "0 < n" and dpr: "devicePixelRatioF s = of_nat n"
    using inv by (simp_all add: editorInv_def)
  have X: "axisOK n (width s) (rx (mSelection s)) (rw (mSelection s))"
    and Y: "axisOK n (height s) (ry (mSelection s)) (rh (mSelection s))"
    using inv by (simp_all add: editorInv_def)
  have mx: "0 \<le> realMaxX s" and my: "0 \<le> realMaxY s"
    using realMax_nonneg [OF n X] realMax_nonneg [OF n Y] dpr
    by (simp_all add: realMaxX_def realMaxY_def)
  let ?X = "clampTopLeft
      (qRound ((px pos - px (mStartPos s) + px (mInitialTopLeft s)) * devicePixelRatioF s))
      (realMaxX s)"
  let ?Y = "clampTopLeft
      (qRound ((py pos - py (mStartPos s) + py (mInitialTopLeft s)) * devicePixelRatioF s))
      (realMaxY s)"
  have rX: "0 \<le> ?X" "?X \<le> qRound ((of_int (width s) - rw (mSelection s)) * of_nat n)"
    using clampTopLeft_range [OF mx] dpr by (simp_all add: realMaxX_def)
  have rY: "0 \<le> ?Y" "?Y \<le> qRound ((of_int (height s) - rh (mSelection s)) * of_nat n)"
    using clampTopLeft_range [OF my] dpr by (simp_all add: realMaxY_def)
  have aX: "axisOK n (width s) (of_int ?X * (1 / of_nat n)) (rw (mSelection s))"
    using drag_axis [OF n X rX] .
  have aY: "axisOK n (height s) (of_int ?Y * (1 / of_nat n)) (rh (mSelection s))"
    using drag_axis [OF n Y rY] .
  show ?thesis
    using aX aY n dpr st dragSelection_frame [of pos s]
    by (simp add: editorInv_def dragSelection_sel dprI_def width_def height_def)
qed

lemma mouseMove_inv:
  assumes inv: "editorInv n s" and pos: "posInWidget s p"
  shows "editorInv n (mouseMoveEvent l p s)"
proof -
  let ?t = "(movePendingShape l (toPointF p) s)\<lparr>mMousePos := toPointF p, mMagnifierAllowed := True\<rparr>"
  note fr = movePendingShape_frame [of l "toPointF p" s]
  have invt: "editorInv n ?t"
    using inv fr by (simp add: editorInv_def width_def height_def)
  have n: "0 < n" and dpr: "devicePixelRatioF s = of_nat n"
    using inv by (simp_all add: editorInv_def)
  have X: "axisOK n (width s) (rx (mSelection s)) (rw (mSelection s))"
    and Y: "axisOK n (height s) (ry (mSelection s)) (rh (mSelection s))"
    using inv by (simp_all add: editorInv_def)
  have px: "0 \<le> qx p" "qx p < width s" and py: "0 \<le> qy p" "qy p < height s"
    using pos by (simp_all add: posInWidget_def)
  show ?thesis
  proof (cases "mMouseDragState s = Inside")
    case True
    then have "mMouseDragState ?t = Inside" using fr by simp
    from dragSelection_inv [OF invt this, of "toPointF p"] True fr show ?thesis
      by (simp add: mouseMoveEvent_def Let_def)
  next
    case notInside: False
    show ?thesis
    proof (cases "mMouseDragState s = MNone")
      case True
      then show ?thesis using inv fr
        by (simp add: mouseMoveEvent_def Let_def editorInv_def width_def height_def)
    next
      case notNone: False
      show ?thesis
      proof (cases "mMouseDragState s = Outside")
        case True
        then have A: "pressOK n (width s) (px (mStartPos s))" "pressOK n (height s) (py (mStartPos s))"
          using inv by (simp_all add: editorInv_def)
        show ?thesis
          using True n dpr A fr outside_axis [OF n A(1) px] outside_axis [OF n A(2) py]
          by (simp add: mouseMoveEvent_def Let_def editorInv_def width_def height_def dprI_def
              mkRectF_def toPointF_def mkPointF_def)
      next
        case notOutside: False
        then have A: "anchorOK n (width s) (px (mStartPos s))" "anchorOK n (height s) (py (mStartPos s))"
          using inv notInside notNone
          by (cases "mMouseDragState s"; simp add: editorInv_def)+
        show ?thesis
          using notInside notNone notOutside n dpr A fr X Y corner_axis [OF n A(1) px] corner_axis [OF n A(2) py]
          by (cases "mMouseDragState s")
            (auto simp add: mouseMoveEvent_def Let_def editorInv_def width_def height_def dprI_def
              mkRectF_def cornerRect_def toPointF_def mkPointF_def split: if_splits)
      qed
    qed
  qed
qed


lemma acceptSelection_inv: "editorInv n s \<Longrightarrow> editorInv n (acceptSelection s)"
  by (simp add: acceptSelection_def editorInv_def width_def height_def Let_def)

lemma mouseRelease_inv:
  assumes inv: "editorInv n s"
  shows "editorInv n (mouseReleaseEvent drawElements b p s)"
proof -
  have X: "axisOK n (width s) (rx (mSelection s)) 0" and Y: "axisOK n (height s) (ry (mSelection s)) 0"
    using inv by (simp_all add: editorInv_def axisOK_def)
  show ?thesis
    using inv X Y
    by (cases "mEditToolState s")
      (auto simp add: mouseReleaseEvent_def Let_def editorInv_def width_def height_def
        acceptSelection_def setWidth_def setHeight_def split: prod.splits)
qed

lemma mouseDoubleClick_inv:
  "editorInv n s \<Longrightarrow> editorInv n (mouseDoubleClickEvent b p s)"
  by (simp add: mouseDoubleClickEvent_def acceptSelection_inv)


lemma axis_round:
  assumes "axisOK n W x w"
  shows "of_int (qRound (x * of_nat n)) = x * of_nat n"
    and "of_int (qRound ((of_int W - w) * of_nat n)) = (of_int W - w) * of_nat n"
proof -
  show "of_int (qRound (x * of_nat n)) = x * of_nat n"
    using assms by (simp add: axisOK_def qRound_Ints)
  have "(of_int W - w) * of_nat n = of_int W * of_nat n - w * of_nat n"
    by (simp add: algebra_simps)
  moreover have "of_int W * of_nat n - w * of_nat n \<in> \<int>"
  proof (rule Ints_diff)
    show "of_int W * of_nat n \<in> (\<int> :: real set)" by simp
    show "w * of_nat n \<in> \<int>" using assms by (simp add: axisOK_def)
  qed
  ultimately show "of_int (qRound ((of_int W - w) * of_nat n)) = (of_int W - w) * of_nat n"
    by (simp add: qRound_Ints)
qed

lemma back_axis:
  assumes n: "0 < n" and ok: "axisOK n W x w" and st: "0 \<le> st"
  defines "nt \<equiv> of_int (max 0 (qRound (x * of_nat n) - st)) / of_nat n"
  shows "axisOK n W nt w"
    and "nt + w - x < 0 \<Longrightarrow> axisOK n W (x + (nt + w - x)) (- (nt + w - x))"
    and "\<not> nt + w - x < 0 \<Longrightarrow> axisOK n W x (nt + w - x)"
proof -
  have T: "of_int (qRound (x * of_nat n)) = x * of_nat n" using axis_round(1) [OF ok] .
  have x0: "0 \<le> x" and w0: "0 \<le> w" and xw: "x + w \<le> of_int W"
    and xi: "x * of_nat n \<in> \<int>" and wi: "w * of_nat n \<in> \<int>"
    using ok by (simp_all add: axisOK_def)
  have nt0: "0 \<le> nt" using n by (simp add: nt_def)
  have "of_int (max 0 (qRound (x * of_nat n) - st)) \<le> (of_int (qRound (x * of_nat n)) :: real)"
  proof -
    have "0 \<le> x * of_nat n" using x0 by simp
    then have "0 \<le> qRound (x * of_nat n)" by (simp add: qRound_floor)
    then have "max 0 (qRound (x * of_nat n) - st) \<le> qRound (x * of_nat n)" using st by simp
    then show ?thesis by (simp only: of_int_le_iff)
  qed
  then have "of_int (max 0 (qRound (x * of_nat n) - st)) \<le> x * of_nat n" using T by simp
  then have ntx: "nt \<le> x" using n by (simp add: nt_def pos_divide_le_eq)
  have nti: "nt * of_nat n \<in> \<int>" using n by (simp add: nt_def)
  show "axisOK n W nt w" using nt0 ntx w0 xw nti wi by (simp add: axisOK_def)
  have di: "(x - nt - w) * of_nat n \<in> \<int>"
  proof -
    have "(x - nt - w) * of_nat n = x * of_nat n - nt * of_nat n - w * of_nat n"
      by (simp add: algebra_simps)
    moreover have "x * of_nat n - nt * of_nat n - w * of_nat n \<in> \<int>"
      using xi nti wi by (intro Ints_diff)
    ultimately show ?thesis by simp
  qed
  have si: "(nt + w) * of_nat n \<in> \<int>"
  proof -
    have "(nt + w) * of_nat n = nt * of_nat n + w * of_nat n" by (simp add: algebra_simps)
    moreover have "nt * of_nat n + w * of_nat n \<in> \<int>" using nti wi by (intro Ints_add)
    ultimately show ?thesis by simp
  qed
  have gi: "(nt + w - x) * of_nat n \<in> \<int>"
  proof -
    have "(nt + w - x) * of_nat n = - ((x - nt - w) * of_nat n)" by (simp add: algebra_simps)
    then show ?thesis using di by (simp only: Ints_minus)
  qed
  { assume neg: "nt + w - x < 0"
    have e: "x + (nt + w - x) = nt + w" "- (nt + w - x) = x - nt - w" by simp_all
    have "axisOK n W (nt + w) (x - nt - w)"
      using neg nt0 w0 x0 xw si di by (simp add: axisOK_def)
    then show "axisOK n W (x + (nt + w - x)) (- (nt + w - x))"
      by (simp only: e) }
  { assume pos: "\<not> nt + w - x < 0"
    show "axisOK n W x (nt + w - x)"
      using pos x0 xw ntx xi gi by (simp add: axisOK_def) }
qed

lemma fwd_axis:
  assumes n: "0 < n" and ok: "axisOK n W x w" and st: "0 \<le> st"
  defines "nt \<equiv> of_int (min (qRound (x * of_nat n) + st)
                      (qRound ((of_int W - w) * of_nat n))) / of_nat n"
  shows "axisOK n W nt w" and "axisOK n W x (nt + w - x)"
proof -
  have T: "of_int (qRound (x * of_nat n)) = x * of_nat n"
    and M: "of_int (qRound ((of_int W - w) * of_nat n)) = (of_int W - w) * of_nat n"
    using axis_round [OF ok] .
  have x0: "0 \<le> x" and w0: "0 \<le> w" and xw: "x + w \<le> of_int W"
    and xi: "x * of_nat n \<in> \<int>" and wi: "w * of_nat n \<in> \<int>"
    using ok by (simp_all add: axisOK_def)
  have T0: "0 \<le> qRound (x * of_nat n)"
  proof -
    have "0 \<le> x * of_nat n" using x0 by simp
    then show ?thesis by (simp add: qRound_floor)
  qed
  have M0: "0 \<le> qRound ((of_int W - w) * of_nat n)" using realMax_nonneg [OF n ok] .
  have TM: "qRound (x * of_nat n) \<le> qRound ((of_int W - w) * of_nat n)"
  proof -
    have "x * of_nat n \<le> (of_int W - w) * of_nat n"
      using xw by (intro mult_right_mono) simp_all
    then have "(of_int (qRound (x * of_nat n)) :: real)
               \<le> of_int (qRound ((of_int W - w) * of_nat n))" using T M by simp
    then show ?thesis by (simp only: of_int_le_iff)
  qed
  let ?k = "min (qRound (x * of_nat n) + st) (qRound ((of_int W - w) * of_nat n))"
  have k0: "0 \<le> ?k" using T0 M0 st by simp
  have kT: "qRound (x * of_nat n) \<le> ?k" using TM st by simp
  have kM: "?k \<le> qRound ((of_int W - w) * of_nat n)" by simp
  have nt0: "0 \<le> nt" using k0 n by (simp add: nt_def)
  have "(of_int ?k :: real) \<le> of_int (qRound ((of_int W - w) * of_nat n))"
    using kM by (simp only: of_int_le_iff)
  then have "of_int ?k \<le> (of_int W - w) * of_nat n" using M by simp
  then have ntW: "nt \<le> of_int W - w" using n by (simp add: nt_def pos_divide_le_eq)
  have "(of_int (qRound (x * of_nat n)) :: real) \<le> of_int ?k"
    using kT by (simp only: of_int_le_iff)
  then have "x * of_nat n \<le> of_int ?k" using T by simp
  then have xnt: "x \<le> nt" using n by (simp add: nt_def pos_le_divide_eq)
  have nti: "nt * of_nat n \<in> \<int>" using n by (simp add: nt_def)
  show "axisOK n W nt w" using nt0 ntW w0 nti wi by (simp add: axisOK_def)
  have gi: "(nt + w - x) * of_nat n \<in> \<int>"
  proof -
    have "(nt + w - x) * of_nat n = nt * of_nat n + w * of_nat n - x * of_nat n"
      by (simp add: algebra_simps)
    moreover have "nt * of_nat n + w * of_nat n - x * of_nat n \<in> \<int>"
      using xi nti wi by (intro Ints_diff Ints_add)
    ultimately show ?thesis by simp
  qed
  show "axisOK n W x (nt + w - x)"
    using x0 w0 xnt ntW gi xi by (simp add: axisOK_def)
qed

lemma keyStep_nonneg: "0 \<le> keyStep b"
  by (simp add: keyStep_def magnifierLargeStep_def)

lemma keyPress_inv:
  assumes inv: "editorInv n s"
  shows "editorInv n (keyPressEvent k m s)"
proof (cases "mDisableArrowKeys s")
  case True
  from keyPress_disabled [OF True, of k m] keyPress_frame [of k m s] inv show ?thesis
    by (simp add: editorInv_def width_def height_def)
next
  case False
  have n: "0 < n" and dpr: "devicePixelRatioF s = of_nat n"
    using inv by (simp_all add: editorInv_def)
  have X: "axisOK n (width s) (rx (mSelection s)) (rw (mSelection s))"
    and Y: "axisOK n (height s) (ry (mSelection s)) (rh (mSelection s))"
    using inv by (simp_all add: editorInv_def)
  have w0: "0 \<le> rw (mSelection s)" and h0: "0 \<le> rh (mSelection s)"
    using X Y by (simp_all add: axisOK_def)
  note st = keyStep_nonneg [of "ShiftModifier m"]
  note fr = keyPress_frame [of k m s]
  show ?thesis
  proof (cases k)
    case Key_Up
    from back_axis [OF n Y st] X w0 h0 fr inv show ?thesis
      unfolding Key_Up
      by (auto simp add: editorInv_def keyPress_Up [OF False] deviceTop_def dpr normalized_def
          Let_def width_def height_def)
  next
    case Key_Left
    from back_axis [OF n X st] Y w0 h0 fr inv show ?thesis
      unfolding Key_Left
      by (auto simp add: editorInv_def keyPress_Left [OF False] deviceLeft_def dpr normalized_def
          Let_def width_def height_def)
  next
    case Key_Down
    from fwd_axis [OF n Y st] X fr inv show ?thesis
      unfolding Key_Down
      by (auto simp add: editorInv_def keyPress_Down [OF False] deviceTop_def realMaxY_def dpr
          Let_def width_def height_def)
  next
    case Key_Right
    from fwd_axis [OF n X st] Y fr inv show ?thesis
      unfolding Key_Right
      by (auto simp add: editorInv_def keyPress_Right [OF False] deviceLeft_def realMaxX_def dpr
          Let_def width_def height_def)
  next
    case Key_Escape
    with inv show ?thesis
      by (simp add: keyPressEvent_def Let_def editorInv_def width_def height_def)
  next
    case Key_Return
    with inv acceptSelection_inv [of n s] acceptSelection_inv [of n "s\<lparr>mToggleMagnifier := True\<rparr>"]
    show ?thesis
      by (simp add: keyPressEvent_def Let_def editorInv_def width_def height_def)
  next
    case Key_Enter
    with inv acceptSelection_inv [of n s] acceptSelection_inv [of n "s\<lparr>mToggleMagnifier := True\<rparr>"]
    show ?thesis
      by (simp add: keyPressEvent_def Let_def editorInv_def width_def height_def)
  next
    case Key_Other
    with inv show ?thesis
      by (simp add: keyPressEvent_def Let_def editorInv_def width_def height_def)
  qed
qed

lemma keyRelease_inv: "editorInv n s \<Longrightarrow> editorInv n (keyReleaseEvent m s)"
  by (simp add: keyReleaseEvent_def editorInv_def width_def height_def)


lemma event_inv:
  "editorInv n s \<Longrightarrow> pointerInWidget s e \<Longrightarrow> editorInv n (event drawElements e s)"
  by (cases e)
    (simp_all add: mousePress_inv mouseMove_inv mouseRelease_inv mouseDoubleClick_inv
      keyPress_inv keyRelease_inv)

lemma mousePress_geometry: "geometry (mousePressEvent b p s) = geometry s"
  by (cases "mEditToolState s"; cases "mouseLocation (mSelection s) (toPointF p)")
    (simp_all add: mousePressEvent_def Let_def)

lemma mouseMove_geometry: "geometry (mouseMoveEvent l p s) = geometry s"
  using movePendingShape_frame [of l "toPointF p" s]
    dragSelection_frame [of "toPointF p"
      "(movePendingShape l (toPointF p) s)\<lparr>mMousePos := toPointF p, mMagnifierAllowed := True\<rparr>"]
  by (cases "mMouseDragState s") (simp_all add: mouseMoveEvent_def Let_def)

lemma mouseRelease_geometry: "geometry (mouseReleaseEvent drawElements b p s) = geometry s"
  by (cases "mEditToolState s")
    (simp_all add: mouseReleaseEvent_def Let_def acceptSelection_def split: prod.splits)

lemma event_geometry: "geometry (event drawElements e s) = geometry s"
  using keyPress_frame
  by (cases e)
    (simp_all add: mousePress_geometry mouseMove_geometry mouseRelease_geometry
      mouseDoubleClickEvent_def acceptSelection_def keyReleaseEvent_def Let_def)

lemma pointerInWidget_geometry:
  "geometry s' = geometry s \<Longrightarrow> pointerInWidget s' e = pointerInWidget s e"
  by (cases e) (simp_all add: posInWidget_def width_def height_def)

lemma events_inv:
  "editorInv n s \<Longrightarrow> \<forall>e \<in> set es. pointerInWidget s e \<Longrightarrow>
     editorInv n (events drawElements es s) \<and> geometry (events drawElements es s) = geometry s"
proof (induction es arbitrary: s)
  case Nil
  then show ?case by simp
next
  case (Cons e es)
  have step: "editorInv n (event drawElements e s)"
    using Cons.prems by (simp add: event_inv)
  have geo: "geometry (event drawElements e s) = geometry s"
    by (rule event_geometry)
  have "\<forall>e' \<in> set es. pointerInWidget (event drawElements e s) e'"
    using Cons.prems(2) pointerInWidget_geometry [OF geo] by simp
  from Cons.IH [OF step this] geo show ?case by simp
qed

lemma inter_axis:
  assumes n: "0 < n" and cw: "0 < cw" and W: "0 \<le> W"
    and ov: "\<not> ((of_int W :: real) \<le> of_int cx * (1 / of_nat n)
              \<or> of_int cx * (1 / of_nat n) + of_int cw * (1 / of_nat n) \<le> (0::real))"
  shows "axisOK n W (max (of_int cx * (1 / of_nat n)) 0)
           (min (of_int cx * (1 / of_nat n) + of_int cw * (1 / of_nat n)) (of_int W)
              - max (of_int cx * (1 / of_nat n)) 0)"
proof -
  let ?l = "of_int cx * (1 / of_nat n) :: real"
  let ?r = "of_int cx * (1 / of_nat n) + of_int cw * (1 / of_nat n) :: real"
  have li: "?l * of_nat n \<in> \<int>" using n by simp
  have ri: "?r * of_nat n \<in> \<int>" using n by (simp add: algebra_simps)
  have Wi: "of_int W * of_nat n \<in> (\<int> :: real set)" by simp
  have lr: "?l < ?r" using cw n by simp
  have mi: "max ?l 0 * of_nat n \<in> \<int>" using li by (simp add: max_def)
  have mini: "min ?r (of_int W) * of_nat n \<in> \<int>" using ri Wi by (simp add: min_def)
  have "(min ?r (of_int W) - max ?l 0) * of_nat n
        = min ?r (of_int W) * of_nat n - max ?l 0 * of_nat n"
    by (simp add: algebra_simps)
  moreover have "min ?r (of_int W) * of_nat n - max ?l 0 * of_nat n \<in> \<int>"
    using mi mini by (rule Ints_diff [rotated])
  ultimately have di: "(min ?r (of_int W) - max ?l 0) * of_nat n \<in> \<int>" by simp
  have ge: "max ?l 0 \<le> min ?r (of_int W)" using ov lr W by (simp add: max_def min_def)
  show ?thesis using mi di ge by (simp add: axisOK_def)
qed

lemma floor_geometry:
  assumes n: "0 < n"
  shows "0 \<le> to_int (of_nat pw * (1 / of_nat n))"
    and "of_int (to_int (of_nat pw * (1 / of_nat n))) * of_nat n \<le> (of_nat pw :: real)"
proof -
  have nn: "0 \<le> (of_nat pw * (1 / of_nat n) :: real)" by simp
  then have t: "to_int (of_nat pw * (1 / of_nat n)) = \<lfloor>of_nat pw * (1 / of_nat n) :: real\<rfloor>"
    by (simp add: to_int_def)
  show "0 \<le> to_int (of_nat pw * (1 / of_nat n))" using nn t by simp
  have "of_int \<lfloor>of_nat pw * (1 / of_nat n) :: real\<rfloor> \<le> (of_nat pw * (1 / of_nat n) :: real)"
    by (rule of_int_floor_le)
  then have "of_int \<lfloor>of_nat pw * (1 / of_nat n) :: real\<rfloor> * of_nat n
             \<le> (of_nat pw * (1 / of_nat n)) * (of_nat n :: real)"
    by (intro mult_right_mono) simp_all
  then show "of_int (to_int (of_nat pw * (1 / of_nat n))) * of_nat n \<le> (of_nat pw :: real)"
    using n t by simp
qed

lemma intersected_geometry:
  assumes a: "0 < rw a" "0 < rh a" and W: "0 \<le> W" "0 \<le> H"
  shows "intersected a (mkRectF 0 0 W H) = nullRectF
       \<or> (intersected a (mkRectF 0 0 W H)
            = mkRectF (max (rx a) 0) (max (ry a) 0)
                (min (rx a + rw a) W - max (rx a) 0) (min (ry a + rh a) H - max (ry a) 0)
          \<and> \<not> (W \<le> rx a \<or> rx a + rw a \<le> 0)
          \<and> \<not> (H \<le> ry a \<or> ry a + rh a \<le> 0)
          \<and> 0 < W \<and> 0 < H)"
  using a W by (auto simp add: intersected_def Let_def mkRectF_def)

lemma newQuickEditor_sel:
  "mSelection (newQuickEditor pm dpr cfg) = nullRectF
   \<or> (0 < iw (configCropRegion cfg) \<and> 0 < ih (configCropRegion cfg)
      \<and> mSelection (newQuickEditor pm dpr cfg)
          = intersected
              (mkRectF (of_int (ix (configCropRegion cfg)) * (1 / dpr))
                 (of_int (iy (configCropRegion cfg)) * (1 / dpr))
                 (of_int (iw (configCropRegion cfg)) * (1 / dpr))
                 (of_int (ih (configCropRegion cfg)) * (1 / dpr)))
              (mkRectF 0 0 (of_int (to_int (of_nat (pwidth pm) * (1 / dpr))))
                 (of_int (to_int (of_nat (pheight pm) * (1 / dpr))))))"
  by (simp add: newQuickEditor_def Let_def not_le)

lemma newQuickEditor_fields:
  "devicePixelRatioF (newQuickEditor pm dpr cfg) = dpr
   \<and> mMouseDragState (newQuickEditor pm dpr cfg) = MNone
   \<and> width (newQuickEditor pm dpr cfg) = to_int (of_nat (pwidth pm) * (1 / dpr))
   \<and> height (newQuickEditor pm dpr cfg) = to_int (of_nat (pheight pm) * (1 / dpr))"
  by (simp add: newQuickEditor_def Let_def width_def height_def)

lemma newQuickEditor_inv:
  assumes n: "0 < n"
  shows "editorInv n (newQuickEditor pm (of_nat n) cfg)"
proof -
  let ?W = "to_int (of_nat (pwidth pm) * (1 / of_nat n))"
  let ?H = "to_int (of_nat (pheight pm) * (1 / of_nat n))"
  let ?c = "configCropRegion cfg"
  let ?a = "mkRectF (of_int (ix ?c) * (1 / of_nat n)) (of_int (iy ?c) * (1 / of_nat n))
              (of_int (iw ?c) * (1 / of_nat n)) (of_int (ih ?c) * (1 / of_nat n))"
  let ?sel = "mSelection (newQuickEditor pm (of_nat n) cfg)"
  have W: "0 \<le> ?W" and H: "0 \<le> ?H" using floor_geometry(1) [OF n] by simp_all
  have null: "axisOK n ?W 0 0" "axisOK n ?H 0 0" using W H by (simp_all add: axisOK_def)
  have "axisOK n ?W (rx ?sel) (rw ?sel) \<and> axisOK n ?H (ry ?sel) (rh ?sel)"
  proof (cases "?sel = nullRectF")
    case True
    then show ?thesis using null by (simp add: nullRectF_def mkRectF_def)
  next
    case False
    with newQuickEditor_sel [of pm "of_nat n" cfg]
    have crop: "0 < iw ?c" "0 < ih ?c"
      and sel: "?sel = intersected ?a (mkRectF 0 0 (of_int ?W) (of_int ?H))"
      by simp_all
    have pos: "0 < rw ?a" "0 < rh ?a" using crop n by (simp_all add: mkRectF_def)
    have WH: "0 \<le> (of_int ?W :: real)" "0 \<le> (of_int ?H :: real)" using W H by simp_all
    from intersected_geometry [OF pos WH] False sel
    have eq: "?sel = mkRectF (max (rx ?a) 0) (max (ry ?a) 0)
                (min (rx ?a + rw ?a) (of_int ?W) - max (rx ?a) 0)
                (min (ry ?a + rh ?a) (of_int ?H) - max (ry ?a) 0)"
      and ovx: "\<not> (of_int ?W \<le> rx ?a \<or> rx ?a + rw ?a \<le> 0)"
      and ovy: "\<not> (of_int ?H \<le> ry ?a \<or> ry ?a + rh ?a \<le> 0)"
      by simp_all
    have ax: "axisOK n ?W (max (of_int (ix ?c) * (1 / of_nat n)) 0)
           (min (of_int (ix ?c) * (1 / of_nat n) + of_int (iw ?c) * (1 / of_nat n)) (of_int ?W)
              - max (of_int (ix ?c) * (1 / of_nat n)) 0)"
      using ovx by (intro inter_axis [OF n crop(1) W]) (simp add: mkRectF_def)
    have ay: "axisOK n ?H (max (of_int (iy ?c) * (1 / of_nat n)) 0)
           (min (of_int (iy ?c) * (1 / of_nat n) + of_int (ih ?c) * (1 / of_nat n)) (of_int ?H)
              - max (of_int (iy ?c) * (1 / of_nat n)) 0)"
      using ovy by (intro inter_axis [OF n crop(2) H]) (simp add: mkRectF_def)
    show ?thesis
      unfolding eq using ax ay by (simp add: mkRectF_def)
  qed
  then show ?thesis
    using n newQuickEditor_fields [of pm "of_nat n" cfg]
    by (simp add: editorInv_def)
qed

lemma axis_in_canvas:
  assumes n: "0 < n" and ok: "axisOK n W x w" and W: "of_int W * of_nat n \<le> (of_nat pw :: real)"
  shows "0 \<le> x * of_nat n \<and> 0 \<le> w * of_nat n \<and> (x + w) * of_nat n \<le> of_nat pw
       \<and> 0 \<le> qRound (x * of_nat n) \<and> 0 \<le> qRound (w * of_nat n)
       \<and> qRound (x * of_nat n) + qRound (w * of_nat n) \<le> int pw"
proof -
  have x0: "0 \<le> x" and w0: "0 \<le> w" and xw: "x + w \<le> of_int W"
    and xi: "x * of_nat n \<in> \<int>" and wi: "w * of_nat n \<in> \<int>"
    using ok by (simp_all add: axisOK_def)
  have a: "0 \<le> x * of_nat n" and b: "0 \<le> w * of_nat n" using x0 w0 by simp_all
  have "(x + w) * of_nat n \<le> of_int W * of_nat n"
    using xw by (intro mult_right_mono) simp_all
  then have c: "(x + w) * of_nat n \<le> of_nat pw" using W by linarith
  have rx: "of_int (qRound (x * of_nat n)) = x * of_nat n"
    and rw: "of_int (qRound (w * of_nat n)) = w * of_nat n"
    using xi wi by (simp_all add: qRound_Ints)
  have d: "0 \<le> qRound (x * of_nat n)" "0 \<le> qRound (w * of_nat n)"
    using a b by (simp_all add: qRound_floor)
  have "(of_int (qRound (x * of_nat n) + qRound (w * of_nat n)) :: real) = (x + w) * of_nat n"
    using rx rw by (simp add: algebra_simps)
  then have "(of_int (qRound (x * of_nat n) + qRound (w * of_nat n)) :: real) \<le> of_int (int pw)"
    using c by simp
  then have e: "qRound (x * of_nat n) + qRound (w * of_nat n) \<le> int pw"
    by (simp only: of_int_le_iff)
  show ?thesis using a b c d e by simp
qed

lemma inv_in_canvas:
  assumes inv: "editorInv n s"
    and W: "of_int (width s) * of_nat n \<le> (of_nat (pwidth pm) :: real)"
    and H: "of_int (height s) * of_nat n \<le> (of_nat (pheight pm) :: real)"
  shows "selectionInCanvas pm s \<and> cropInCanvas pm (scaledCropRegion s)"
proof -
  have n: "0 < n" and dpr: "devicePixelRatioF s = of_nat n"
    using inv by (simp_all add: editorInv_def)
  have X: "axisOK n (width s) (rx (mSelection s)) (rw (mSelection s))"
    and Y: "axisOK n (height s) (ry (mSelection s)) (rh (mSelection s))"
    using inv by (simp_all add: editorInv_def)
  from axis_in_canvas [OF n X W] axis_in_canvas [OF n Y H] dpr show ?thesis
    by (simp add: selectionInCanvas_def cropInCanvas_def scaledCropRegion_def Let_def)
qed

lemma reached_deviceAligned:
  assumes n: "0 < n"
    and es: "list_all (pointerInWidget (newQuickEditor pm (of_nat n) cfg)) es"
  shows "deviceAligned n (events drawElements es (newQuickEditor pm (of_nat n) cfg))"
proof -
  have "\<forall>e \<in> set es. pointerInWidget (newQuickEditor pm (of_nat n) cfg) e"
    using es by (simp add: list_all_iff)
  from events_inv [OF newQuickEditor_inv [OF n] this]
  have "editorInv n (events drawElements es (newQuickEditor pm (of_nat n) cfg))" by simp
  then show ?thesis by (simp add: editorInv_def axisOK_def deviceAligned_def)
qed

text \<open>
  C1, as the code has it. The editor is constructed on a canvas \<open>pm\<close> at an integral
  device-pixel ratio \<open>n\<close>, with or without a remembered region. After every prefix of
  a sequence of pointer and keyboard events whose pointer positions lie inside the
  widget, the selection's projection to device space is contained in the canvas. Only
  the drag of the selection and the arrow keys clamp; a new or resized selection
  follows the pointer, and is inside the canvas because the pointer is.
\<close>

theorem selection_stays_in_canvas:
  assumes n: "0 < n"
    and es: "list_all (pointerInWidget (newQuickEditor pm (of_nat n) cfg)) es"
  shows "selectionInCanvas pm (events drawElements (take k es) (newQuickEditor pm (of_nat n) cfg))
       \<and> cropInCanvas pm
           (scaledCropRegion (events drawElements (take k es) (newQuickEditor pm (of_nat n) cfg)))"
proof -
  let ?init = "newQuickEditor pm (of_nat n) cfg"
  let ?s = "events drawElements (take k es) ?init"
  have "\<forall>e \<in> set (take k es). pointerInWidget ?init e"
    using es by (auto simp add: list_all_iff dest: in_set_takeD)
  from events_inv [OF newQuickEditor_inv [OF n] this]
  have inv: "editorInv n ?s" and geo: "geometry ?s = geometry ?init" by simp_all
  have W: "of_int (width ?s) * of_nat n \<le> (of_nat (pwidth pm) :: real)"
    and H: "of_int (height ?s) * of_nat n \<le> (of_nat (pheight pm) :: real)"
    using geo floor_geometry(2) [OF n, of "pwidth pm"] floor_geometry(2) [OF n, of "pheight pm"]
      newQuickEditor_fields [of pm "of_nat n" cfg]
    by (simp_all add: width_def height_def)
  from inv_in_canvas [OF inv W H] show ?thesis .
qed

text \<open>
  The scenario of the specification: on the canvas of 1000 x 800 pixels at ratio 1, a
  press at \<open>(100,100)\<close> and a move to \<open>(400,300)\<close> select \<open>rect(100,100,301,201)\<close>.
\<close>

theorem selection_stays_in_canvas_witness:
  "0 < (1::nat)
   \<and> list_all (pointerInWidget (newQuickEditor canvas (of_nat 1) plainConfig))
       [MousePress LeftButton (pt 100 100), MouseMove True (pt 400 300)]
   \<and> mSelection (events fillPainter
        (take 2 [MousePress LeftButton (pt 100 100), MouseMove True (pt 400 300)])
        (newQuickEditor canvas (of_nat 1) plainConfig)) = mkRectF 100 100 301 201
   \<and> selectionInCanvas canvas (events fillPainter
        (take 2 [MousePress LeftButton (pt 100 100), MouseMove True (pt 400 300)])
        (newQuickEditor canvas (of_nat 1) plainConfig))"
proof -
  let ?es = "[MousePress LeftButton (pt 100 100), MouseMove True (pt 400 300)]"
  have n: "0 < (1::nat)" by simp
  have es: "list_all (pointerInWidget (newQuickEditor canvas (of_nat 1) plainConfig)) ?es"
    by (simp add: posInWidget_def width_def height_def editor_defs Let_def)
  have sel: "mSelection (events fillPainter (take 2 ?es)
        (newQuickEditor canvas (of_nat 1) plainConfig)) = mkRectF 100 100 301 201"
    by (simp add: mouseMoveEvent_def movePendingShape_def dprI_def press_eval_defs editor_defs
        Let_def)
  from selection_stays_in_canvas [OF n es, of fillPainter 2] n es sel
  show ?thesis by simp
qed

text \<open>
  A move that leaves the widget: after a press at \<open>(100,100)\<close> the pointer is reported
  at \<open>(-5,50)\<close>. The new selection follows it, and its left edge is at \<open>-5\<close>.
\<close>

theorem selection_stays_in_canvas_counterexample:
  "mMouseDragState (events fillPainter [MousePress LeftButton (pt 100 100)]
        (newQuickEditor canvas 1 plainConfig)) = Outside
   \<and> mSelection (events fillPainter
        [MousePress LeftButton (pt 100 100), MouseMove True (pt (- 5) 50)]
        (newQuickEditor canvas 1 plainConfig)) = mkRectF (- 5) 50 106 51
   \<and> \<not> selectionInCanvas canvas (events fillPainter
        [MousePress LeftButton (pt 100 100), MouseMove True (pt (- 5) 50)]
        (newQuickEditor canvas 1 plainConfig))"
  by (simp add: selectionInCanvas_def mouseMoveEvent_def movePendingShape_def dprI_def
      press_eval_defs editor_defs Let_def)

end
